theory Spec2Isabelle
  imports Complex_Main "HOL-Library.Word"
begin

section \<open>Data model\<close>

text \<open>
  JavaScript numbers are modelled as ideal reals: rounding, overflow and underflow of
  IEEE doubles are not part of the model. Where the source can produce an infinity,
  a signed zero or NaN (divisions by zero in the metrics), the value is a \<open>jsnum\<close>.
  A colour vector (\<open>number[]\<close> of length 3: a pixel, a centroid, a mode) is a triple
  of reals. A channel byte of a \<open>Uint8ClampedArray\<close> is an \<open>8 word\<close>.
\<close>

type_synonym color = "real \<times> real \<times> real"

type_synonym byte = "8 word"

record ImageData =
  width :: nat
  height :: nat
  data :: "byte list"

text \<open>The objects of the browser guarantee \<open>data.length = 4 * width * height\<close> and
  non-zero dimensions.\<close>

definition wf_image :: "ImageData \<Rightarrow> bool" where
  "wf_image img \<longleftrightarrow>
     0 < width img \<and> 0 < height img \<and> length (data img) = 4 * width img * height img"

text \<open>\<open>for (let i = 0; i < data.length; i += 4) pixels.push([data[i], data[i+1], data[i+2]])\<close>\<close>

fun extract_pixels :: "byte list \<Rightarrow> color list" where
  "extract_pixels (r # g # b # a # rest) =
     (real (unat r), real (unat g), real (unat b)) # extract_pixels rest"
| "extract_pixels _ = []"

section \<open>Colour utilities (part 001)\<close>

text \<open>The inner helper \<open>hue2rgb\<close> of \<open>hslToRgb\<close>: the hue offset is wrapped once
  upwards and once downwards, then the piecewise-linear ramp is evaluated.\<close>

definition hue2rgb :: "real \<Rightarrow> real \<Rightarrow> real \<Rightarrow> real" where
  "hue2rgb p q t0 =
     (let t1 = (if t0 < 0 then t0 + 1 else t0);
          t = (if t1 > 1 then t1 - 1 else t1)
      in if t < 1/6 then p + (q - p) * 6 * t
         else if t < 1/2 then q
         else if t < 2/3 then p + (q - p) * (2/3 - t) * 6
         else p)"

text \<open>\<open>Math.round\<close> is \<open>\<lfloor>x + 1/2\<rfloor>\<close>, which is \<^const>\<open>round\<close>.\<close>

definition hslToRgb :: "real \<Rightarrow> real \<Rightarrow> real \<Rightarrow> color" where
  "hslToRgb h s l =
     (let (r, g, b) =
        (if s = 0 then (l, l, l)
         else let q = (if l < 1/2 then l * (1 + s) else l + s - l * s);
                  p = 2 * l - q
              in (hue2rgb p q (h + 1/3), hue2rgb p q h, hue2rgb p q (h - 1/3)))
      in (of_int (round (r * 255)), of_int (round (g * 255)), of_int (round (b * 255))))"

text \<open>A valid channel byte: an integer between 0 and 255.\<close>

definition channel_byte :: "real \<Rightarrow> bool" where
  "channel_byte c \<longleftrightarrow> c \<in> \<int> \<and> 0 \<le> c \<and> c \<le> 255"


section \<open>Runtime values: errors, numbers, the heap of images\<close>

text \<open>The exceptions the JavaScript runtime raises in this code: reading a property of
  \<open>undefined\<close> (\<open>TypeError\<close>) and \<open>Array(k)\<close> with a negative length
  (\<open>RangeError\<close>). The source declares no error type of its own.\<close>

datatype error = TypeError | RangeError

text \<open>A number that may be non-finite. \<open>Fin 0\<close> is \<open>+0\<close> and \<open>NegZero\<close> is \<open>-0\<close>.\<close>

datatype jsnum = Fin real | NegZero | PInf | NInf | NaN

fun js_is_neg :: "jsnum \<Rightarrow> bool" where
  "js_is_neg (Fin x) = (x < 0)"
| "js_is_neg NegZero = True"
| "js_is_neg NInf = True"
| "js_is_neg PInf = False"
| "js_is_neg NaN = False"

fun js_is_zero :: "jsnum \<Rightarrow> bool" where
  "js_is_zero (Fin x) = (x = 0)"
| "js_is_zero NegZero = True"
| "js_is_zero PInf = False"
| "js_is_zero NInf = False"
| "js_is_zero NaN = False"

fun js_is_inf :: "jsnum \<Rightarrow> bool" where
  "js_is_inf PInf = True"
| "js_is_inf NInf = True"
| "js_is_inf (Fin x) = False"
| "js_is_inf NegZero = False"
| "js_is_inf NaN = False"

fun js_val :: "jsnum \<Rightarrow> real" where
  "js_val (Fin x) = x"
| "js_val NegZero = 0"
| "js_val PInf = 0"
| "js_val NInf = 0"
| "js_val NaN = 0"

definition js_signed_inf :: "bool \<Rightarrow> jsnum" where
  "js_signed_inf neg = (if neg then NInf else PInf)"

definition js_signed_zero :: "bool \<Rightarrow> jsnum" where
  "js_signed_zero neg = (if neg then NegZero else Fin 0)"

text \<open>The operator \<open>/\<close> of IEEE 754, on ideal reals.\<close>

definition js_div :: "jsnum \<Rightarrow> jsnum \<Rightarrow> jsnum" where
  "js_div a b =
     (let neg = (js_is_neg a \<noteq> js_is_neg b)
      in if a = NaN \<or> b = NaN then NaN
         else if js_is_inf a then (if js_is_inf b then NaN else js_signed_inf neg)
         else if js_is_inf b then js_signed_zero neg
         else if js_is_zero b then (if js_is_zero a then NaN else js_signed_inf neg)
         else if js_is_zero a then js_signed_zero neg
         else Fin (js_val a / js_val b))"

text \<open>The operator \<open>+\<close>.\<close>

definition js_add :: "jsnum \<Rightarrow> jsnum \<Rightarrow> jsnum" where
  "js_add a b =
     (if a = NaN \<or> b = NaN then NaN
      else if js_is_inf a then (if js_is_inf b \<and> a \<noteq> b then NaN else a)
      else if js_is_inf b then b
      else if a = NegZero \<and> b = NegZero then NegZero
      else Fin (js_val a + js_val b))"

text \<open>The operator \<open>-\<close>: \<open>a - b\<close> is \<open>a + (-b)\<close>.\<close>

fun js_neg :: "jsnum \<Rightarrow> jsnum" where
  "js_neg (Fin x) = (if x = 0 then NegZero else Fin (- x))"
| "js_neg NegZero = Fin 0"
| "js_neg PInf = NInf"
| "js_neg NInf = PInf"
| "js_neg NaN = NaN"

definition js_sub :: "jsnum \<Rightarrow> jsnum \<Rightarrow> jsnum" where
  "js_sub a b = js_add a (js_neg b)"

text \<open>\<open>Math.max\<close> and \<open>Math.min\<close> of two arguments (\<open>+0\<close> is larger than \<open>-0\<close>).\<close>

definition js_max :: "jsnum \<Rightarrow> jsnum \<Rightarrow> jsnum" where
  "js_max a b =
     (if a = NaN \<or> b = NaN then NaN
      else if a = PInf \<or> b = PInf then PInf
      else if a = NInf then b
      else if b = NInf then a
      else if js_val a < js_val b then b
      else if js_val b < js_val a then a
      else if a = NegZero then b else a)"

definition js_min :: "jsnum \<Rightarrow> jsnum \<Rightarrow> jsnum" where
  "js_min a b =
     (if a = NaN \<or> b = NaN then NaN
      else if a = NInf \<or> b = NInf then NInf
      else if a = PInf then b
      else if b = PInf then a
      else if js_val a < js_val b then a
      else if js_val b < js_val a then b
      else if a = NegZero then a else b)"

text \<open>
  \<open>ImageData\<close> objects live in a heap and are passed by reference: a reference is an
  index into the list of allocated objects, and \<open>new ImageData(w, h)\<close> appends a
  zero-filled object.
\<close>

type_synonym ref = nat

type_synonym heap = "ImageData list"

definition new_ImageData :: "nat \<Rightarrow> nat \<Rightarrow> heap \<Rightarrow> ref \<times> heap" where
  "new_ImageData w h H =
     (length H, H @ [\<lparr>width = w, height = h, data = replicate (4 * w * h) 0\<rparr>])"

text \<open>Storing a number into a \<open>Uint8ClampedArray\<close>: clamp to \<open>[0, 255]\<close>, round half
  to even.\<close>

definition round_half_even :: "real \<Rightarrow> int" where
  "round_half_even x =
     (let f = \<lfloor>x\<rfloor>; d = x - of_int f
      in if d < 1/2 then f else if 1/2 < d then f + 1 else if even f then f else f + 1)"

definition toUint8Clamp :: "real \<Rightarrow> byte" where
  "toUint8Clamp x =
     (if x \<le> 0 then 0 else if 255 \<le> x then 255 else word_of_int (round_half_even x))"

text \<open>\<open>obj.data[idx] = v\<close> on the object at reference \<open>r\<close>; a store beyond the end of
  a typed array is ignored, as \<^const>\<open>list_update\<close> does.\<close>

definition set_byte :: "ref \<Rightarrow> nat \<Rightarrow> byte \<Rightarrow> heap \<Rightarrow> heap" where
  "set_byte r idx v H = H[r := (H ! r)\<lparr>data := (data (H ! r))[idx := v]\<rparr>]"

text \<open>The four stores of one output pixel: the three channels of a colour, then alpha
  255.\<close>

definition write_pixel :: "ref \<Rightarrow> nat \<Rightarrow> color \<Rightarrow> heap \<Rightarrow> heap" where
  "write_pixel r i c H =
     (case c of (cr, cg, cb) \<Rightarrow>
        set_byte r (4 * i + 3) 255
          (set_byte r (4 * i + 2) (toUint8Clamp cb)
            (set_byte r (4 * i + 1) (toUint8Clamp cg)
              (set_byte r (4 * i) (toUint8Clamp cr) H))))"

text \<open>The output loops: pixel \<open>i\<close> gets the colour of its label.\<close>

definition recolor :: "ref \<Rightarrow> color list \<Rightarrow> nat list \<Rightarrow> nat \<Rightarrow> heap \<Rightarrow> heap" where
  "recolor r colors labs n H = fold (\<lambda>i. write_pixel r i (colors ! (labs ! i))) [0..<n] H"

record ClusteringResult =
  imageData :: ref
  labels :: "nat list"
  centroids :: "color list"

section \<open>Distance and nearest centroid\<close>

text \<open>\<open>Math.sqrt(a.reduce((sum, val, i) => sum + (val - b[i]) ** 2, 0))\<close>, the same in
  both files; part 001 writes it inline for the channels r, g, b.\<close>

fun euclideanDistance :: "color \<Rightarrow> color \<Rightarrow> real" where
  "euclideanDistance (a0, a1, a2) (b0, b1, b2) =
     sqrt (0 + (a0 - b0)\<^sup>2 + (a1 - b1)\<^sup>2 + (a2 - b2)\<^sup>2)"

text \<open>The scan over the centroids with \<open>minDist = Infinity\<close> (here \<open>None\<close>) and
  \<open>clusterIdx = 0\<close>: a centroid replaces the current one only when strictly nearer.\<close>

fun nearest_from :: "color \<Rightarrow> color list \<Rightarrow> nat \<Rightarrow> real option \<times> nat \<Rightarrow> real option \<times> nat" where
  "nearest_from pixel [] j acc = acc"
| "nearest_from pixel (centroid # rest) j (minDist, clusterIdx) =
     (let dist = euclideanDistance pixel centroid
      in if (case minDist of None \<Rightarrow> True | Some m \<Rightarrow> dist < m)
         then nearest_from pixel rest (Suc j) (Some dist, j)
         else nearest_from pixel rest (Suc j) (minDist, clusterIdx))"

definition nearest :: "color list \<Rightarrow> color \<Rightarrow> nat" where
  "nearest cs pixel = snd (nearest_from pixel cs 0 (None, 0))"

text \<open>The synthetic colours of part 001: index \<open>i\<close> of \<open>m\<close> is mapped to the hue
  \<open>(i * 360 / m) / 360\<close>.\<close>

definition hue_colors :: "nat \<Rightarrow> real \<Rightarrow> real \<Rightarrow> color list" where
  "hue_colors m s l = map (\<lambda>i. hslToRgb ((real i * 360 / real m) / 360) s l) [0..<m]"

section \<open>Mean shift (part 001)\<close>

text \<open>The inner loop with \<open>break\<close>: the first mode nearer than \<open>bandwidth * 40\<close>.\<close>

fun find_mode :: "real \<Rightarrow> color \<Rightarrow> color list \<Rightarrow> nat \<Rightarrow> nat option" where
  "find_mode bandwidth px [] j = None"
| "find_mode bandwidth px (m # ms) j =
     (if euclideanDistance px m < bandwidth * 40 then Some j
      else find_mode bandwidth px ms (Suc j))"

definition meanShift_step :: "real \<Rightarrow> color list \<times> nat list \<Rightarrow> color \<Rightarrow> color list \<times> nat list" where
  "meanShift_step bandwidth st px =
     (case st of (modes, labs) \<Rightarrow>
        (case find_mode bandwidth px modes 0 of
           Some j \<Rightarrow> (modes, labs @ [j])
         | None \<Rightarrow> (modes @ [px], labs @ [length (modes @ [px]) - 1])))"

definition meanShift_scan :: "real \<Rightarrow> color list \<Rightarrow> color list \<times> nat list" where
  "meanShift_scan bandwidth pixels = foldl (meanShift_step bandwidth) ([], []) pixels"

definition meanShiftSegmentation_part001 ::
  "heap \<Rightarrow> ref \<Rightarrow> real \<Rightarrow> heap \<times> ClusteringResult" where
  "meanShiftSegmentation_part001 H inp bandwidth =
     (let img = H ! inp;
          (segmented, H1) = new_ImageData (width img) (height img) H;
          pixels = extract_pixels (data img);
          (modes, labs) = meanShift_scan bandwidth pixels;
          modeColors = hue_colors (length modes) (9/10) (6/10);
          H2 = recolor segmented modeColors labs (length pixels) H1
      in (H2, \<lparr>imageData = segmented, labels = labs, centroids = modes\<rparr>))"

text \<open>Label \<open>j\<close> occurs first at pixel \<open>i\<close>.\<close>

definition first_with_label :: "nat list \<Rightarrow> nat \<Rightarrow> nat \<Rightarrow> bool" where
  "first_with_label labs j i \<longleftrightarrow> i < length labs \<and> labs ! i = j \<and> (\<forall>i'<i. labs ! i' \<noteq> j)"

text \<open>The invariant of the scan over a prefix \<open>pixels\<close> of the image.\<close>

definition meanShift_inv :: "real \<Rightarrow> color list \<Rightarrow> color list \<Rightarrow> nat list \<Rightarrow> bool" where
  "meanShift_inv bw pixels modes labs \<longleftrightarrow>
     length labs = length pixels \<and>
     (\<forall>i<length pixels. labs ! i < length modes \<and>
        (euclideanDistance (pixels ! i) (modes ! (labs ! i)) < bw * 40 \<or>
         pixels ! i = modes ! (labs ! i))) \<and>
     (\<forall>j<length modes. \<exists>i. first_with_label labs j i \<and> modes ! j = pixels ! i)"

section \<open>Cluster validity metrics (metricsCalculation.ts)\<close>

text \<open>\<open>labels[idx]\<close> of a JavaScript array is \<open>undefined\<close> (here \<open>None\<close>) beyond its
  end.\<close>

definition label_at :: "nat list \<Rightarrow> nat \<Rightarrow> nat option" where
  "label_at labs i = (if i < length labs then Some (labs ! i) else None)"

text \<open>\<open>pixels.filter((_, idx) => labels[idx] === l)\<close>\<close>

definition pixels_with_label :: "color list \<Rightarrow> nat list \<Rightarrow> nat option \<Rightarrow> color list" where
  "pixels_with_label pixels labs l =
     map fst (filter (\<lambda>(p, idx). label_at labs idx = l) (zip pixels [0..<length pixels]))"

text \<open>\<open>let d = 0; for (const pixel of ps) d += euclideanDistance(x, pixel)\<close>\<close>

definition total_distance :: "color \<Rightarrow> color list \<Rightarrow> real" where
  "total_distance x ps = foldl (\<lambda>d pixel. d + euclideanDistance x pixel) 0 ps"

text \<open>\<open>[...new Set(labels)]\<close>: the distinct labels in the order of their first
  occurrence.\<close>

definition uniqueLabels :: "nat list \<Rightarrow> nat list" where
  "uniqueLabels labs = foldl (\<lambda>acc l. if l \<in> set acc then acc else acc @ [l]) [] labs"

definition silhouette_a :: "color list \<Rightarrow> nat list \<Rightarrow> nat \<Rightarrow> real" where
  "silhouette_a pixels labs i =
     (let sameClusterPixels = pixels_with_label pixels labs (label_at labs i);
          intraDistance = total_distance (pixels ! i) sameClusterPixels
      in if length sameClusterPixels > 1
         then intraDistance / real (length sameClusterPixels - 1) else 0)"

definition silhouette_b :: "color list \<Rightarrow> nat list \<Rightarrow> nat \<Rightarrow> jsnum" where
  "silhouette_b pixels labs i =
     foldl (\<lambda>minInterDistance label.
        if Some label \<noteq> label_at labs i
        then (let otherClusterPixels = pixels_with_label pixels labs (Some label);
                  interDistance = total_distance (pixels ! i) otherClusterPixels;
                  avgInterDistance =
                    (if length otherClusterPixels > 0
                     then interDistance / real (length otherClusterPixels) else 0)
              in js_min minInterDistance (Fin avgInterDistance))
        else minInterDistance)
      PInf (uniqueLabels labs)"

definition silhouette_s :: "color list \<Rightarrow> nat list \<Rightarrow> nat \<Rightarrow> jsnum" where
  "silhouette_s pixels labs i =
     (let a = silhouette_a pixels labs i; b = silhouette_b pixels labs i
      in if a = 0 then Fin 0 else js_div (js_sub b (Fin a)) (js_max (Fin a) b))"

definition calculateSilhouetteScore :: "ImageData \<Rightarrow> nat list \<Rightarrow> jsnum" where
  "calculateSilhouetteScore img labs =
     (let pixels = extract_pixels (data img);
          totalScore = foldl (\<lambda>t i. js_add t (silhouette_s pixels labs i)) (Fin 0)
                         [0..<length pixels]
      in js_div totalScore (Fin (real (length pixels))))"

text \<open>\<open>calculateScatter\<close>: the mean distance of the points of a cluster to its centroid,
  0 for an empty cluster.\<close>

definition calculateScatter :: "color list \<Rightarrow> color \<Rightarrow> real" where
  "calculateScatter cluster centroid =
     (if length cluster = 0 then 0
      else foldl (\<lambda>scatter point. scatter + euclideanDistance point centroid) 0 cluster
             / real (length cluster))"

text \<open>The loops of \<open>calculateDaviesBouldinIndex\<close>. \<open>clusters[i]\<close> beyond the end of
  \<open>clusters\<close> is \<open>undefined\<close>, and \<open>calculateScatter\<close> raises on reading its length.\<close>

fun db_inner :: "color list \<Rightarrow> color list list \<Rightarrow> nat \<Rightarrow> nat list \<Rightarrow> jsnum \<Rightarrow> error + jsnum" where
  "db_inner cs clusters i [] maxRatio = Inr maxRatio"
| "db_inner cs clusters i (j # js) maxRatio =
     (if i \<noteq> j
      then (if i < length clusters \<and> j < length clusters
            then (let scatterI = calculateScatter (clusters ! i) (cs ! i);
                      scatterJ = calculateScatter (clusters ! j) (cs ! j);
                      distance = euclideanDistance (cs ! i) (cs ! j);
                      ratio = js_div (Fin (scatterI + scatterJ)) (Fin distance)
                  in db_inner cs clusters i js (js_max maxRatio ratio))
            else Inl TypeError)
      else db_inner cs clusters i js maxRatio)"

fun db_outer :: "color list \<Rightarrow> color list list \<Rightarrow> nat list \<Rightarrow> jsnum \<Rightarrow> error + jsnum" where
  "db_outer cs clusters [] dbIndex = Inr dbIndex"
| "db_outer cs clusters (i # is) dbIndex =
     (case db_inner cs clusters i [0..<length cs] (Fin 0) of
        Inl e \<Rightarrow> Inl e
      | Inr maxRatio \<Rightarrow> db_outer cs clusters is (js_add dbIndex maxRatio))"

definition calculateDaviesBouldinIndex :: "color list \<Rightarrow> color list list \<Rightarrow> error + jsnum" where
  "calculateDaviesBouldinIndex cs clusters =
     (let k = length cs
      in case db_outer cs clusters [0..<k] (Fin 0) of
           Inl e \<Rightarrow> Inl e
         | Inr dbIndex \<Rightarrow> Inr (js_div dbIndex (Fin (real k))))"

text \<open>The within-cluster loop of \<open>calculateCalinskiHarabaszIndex\<close>:
  \<open>centroids[labels[i]]\<close> is \<open>undefined\<close> for a missing or out-of-range label, and
  \<open>euclideanDistance\<close> raises on indexing it.\<close>

fun within_ss :: "color list \<Rightarrow> nat list \<Rightarrow> color list \<Rightarrow> nat \<Rightarrow> real \<Rightarrow> error + real" where
  "within_ss cs labs [] i withinSS = Inr withinSS"
| "within_ss cs labs (p # ps) i withinSS =
     (if i < length labs \<and> labs ! i < length cs
      then (let distance = euclideanDistance p (cs ! (labs ! i))
            in within_ss cs labs ps (Suc i) (withinSS + distance * distance))
      else Inl TypeError)"

definition between_ss :: "color list \<Rightarrow> nat list \<Rightarrow> color \<Rightarrow> real" where
  "between_ss cs labs overallCentroid =
     foldl (\<lambda>betweenSS i.
        let clusterSize = length (filter (\<lambda>label. label = i) labs);
            distance = euclideanDistance (cs ! i) overallCentroid
        in betweenSS + real clusterSize * distance * distance)
      0 [0..<length cs]"

definition overall_centroid :: "color list \<Rightarrow> color" where
  "overall_centroid pixels =
     (case foldl (\<lambda>(r, g, b) (pr, pg, pb). (r + pr, g + pg, b + pb)) (0, 0, 0) pixels of
        (r, g, b) \<Rightarrow> (r / real (length pixels), g / real (length pixels), b / real (length pixels)))"

text \<open>The image is not empty (see \<^const>\<open>wf_image\<close>), so the overall centroid is
  finite.\<close>

definition calculateCalinskiHarabaszIndex :: "ImageData \<Rightarrow> color list \<Rightarrow> nat list \<Rightarrow> error + jsnum" where
  "calculateCalinskiHarabaszIndex img cs labs =
     (let pixels = extract_pixels (data img);
          k = length cs;
          n = length pixels;
          betweenSS = between_ss cs labs (overall_centroid pixels)
      in case within_ss cs labs pixels 0 0 of
           Inl e \<Rightarrow> Inl e
         | Inr withinSS \<Rightarrow>
             Inr (js_div (js_div (Fin betweenSS) (Fin (real k - 1)))
                         (js_div (Fin withinSS) (Fin (real n - real k)))))"

section \<open>The random source\<close>

text \<open>
  \<open>Math.random()\<close> is made explicit: the \<open>i\<close>-th call of a run returns \<open>rnd i\<close>,
  and the functions thread the number \<open>ri\<close> of calls made so far. Its contract is a
  number in \<open>[0, 1)\<close>.
\<close>

definition valid_rnd :: "(nat \<Rightarrow> real) \<Rightarrow> bool" where
  "valid_rnd rnd \<longleftrightarrow> (\<forall>i. 0 \<le> rnd i \<and> rnd i < 1)"

text \<open>\<open>Math.floor(Math.random() * n)\<close>\<close>

definition random_index :: "real \<Rightarrow> nat \<Rightarrow> nat" where
  "random_index u n = nat \<lfloor>u * real n\<rfloor>"

section \<open>k-means with k-means++ seeding (part 000)\<close>

text \<open>\<open>Math.min(...ds)\<close> of a non-empty array; the seeding always holds at least the
  first centroid.\<close>

fun math_min :: "real list \<Rightarrow> real" where
  "math_min (d # ds) = fold min ds d"

text \<open>\<open>Math.min(...centroids.map(c => euclideanDistance(p, c)))\<close>\<close>

definition min_distance :: "color list \<Rightarrow> color \<Rightarrow> real" where
  "min_distance cs p = math_min (map (euclideanDistance p) cs)"

text \<open>The threshold loop with \<open>break\<close>: the first index at which the running sum
  reaches the threshold, if any.\<close>

fun pick_cumulative :: "real \<Rightarrow> real list \<Rightarrow> real \<Rightarrow> nat \<Rightarrow> nat option" where
  "pick_cumulative threshold [] cumulative i = None"
| "pick_cumulative threshold (d # ds) cumulative i =
     (if cumulative + d \<ge> threshold then Some i
      else pick_cumulative threshold ds (cumulative + d) (Suc i))"

text \<open>\<open>while (centroids.length < k)\<close>: a round that finds no index pushes nothing and
  the loop goes on, so the loop may run forever (\<open>None\<close>).\<close>

partial_function (option) kmeanspp_loop ::
  "(nat \<Rightarrow> real) \<Rightarrow> color list \<Rightarrow> int \<Rightarrow> color list \<Rightarrow> nat \<Rightarrow> (color list \<times> nat) option" where
  "kmeanspp_loop rnd pixels k cs ri =
     (if int (length cs) < k
      then (let distances = map (min_distance cs) pixels;
                total = foldl (+) 0 distances;
                threshold = rnd ri * total
            in case pick_cumulative threshold distances 0 0 of
                 Some i \<Rightarrow> kmeanspp_loop rnd pixels k (cs @ [pixels ! i]) (Suc ri)
               | None \<Rightarrow> kmeanspp_loop rnd pixels k cs (Suc ri))
      else Some (cs, ri))"

text \<open>The accumulator of one cluster in a pass: \<open>{sum: [0, 0, 0], count: 0}\<close>.\<close>

record Cluster =
  csum :: color
  ccount :: nat

fun add_color :: "color \<Rightarrow> color \<Rightarrow> color" where
  "add_color (v0, v1, v2) (p0, p1, p2) = (v0 + p0, v1 + p1, v2 + p2)"

fun div_color :: "color \<Rightarrow> real \<Rightarrow> color" where
  "div_color (v0, v1, v2) c = (v0 / c, v1 / c, v2 / c)"

text \<open>\<open>pixels.forEach((pixel, i) => ...)\<close>: nearest centroid, change flag, label,
  accumulation. \<open>clusters[clusterIdx]\<close> beyond the end of \<open>clusters\<close> is
  \<open>undefined\<close> and reading its \<open>sum\<close> raises.\<close>

fun assign_pixels ::
  "color list \<Rightarrow> color list \<Rightarrow> nat \<Rightarrow> nat list \<Rightarrow> Cluster list \<Rightarrow> bool
     \<Rightarrow> error + (nat list \<times> Cluster list \<times> bool)" where
  "assign_pixels cs [] i labs clusters changed = Inr (labs, clusters, changed)"
| "assign_pixels cs (pixel # rest) i labs clusters changed =
     (let clusterIdx = nearest cs pixel;
          changed' = (if labs ! i \<noteq> clusterIdx then True else changed);
          labs' = labs[i := clusterIdx]
      in if clusterIdx < length clusters
         then assign_pixels cs rest (Suc i) labs'
                (clusters[clusterIdx :=
                   \<lparr>csum = add_color (csum (clusters ! clusterIdx)) pixel,
                    ccount = Suc (ccount (clusters ! clusterIdx))\<rparr>])
                changed'
         else Inl TypeError)"

text \<open>\<open>clusters.map(cluster => cluster.count > 0 ? mean : centroids[random index])\<close>,
  where \<open>centroids\<close> is still the array of the pass; every empty cluster draws one
  random number, in the order of the clusters.\<close>

fun update_centroids :: "(nat \<Rightarrow> real) \<Rightarrow> color list \<Rightarrow> Cluster list \<Rightarrow> nat \<Rightarrow> color list \<times> nat" where
  "update_centroids rnd cs [] ri = ([], ri)"
| "update_centroids rnd cs (cluster # rest) ri =
     (if ccount cluster > 0
      then (case update_centroids rnd cs rest ri of
              (new, ri') \<Rightarrow> (div_color (csum cluster) (real (ccount cluster)) # new, ri'))
      else (case update_centroids rnd cs rest (Suc ri) of
              (new, ri') \<Rightarrow> (cs ! random_index (rnd ri) (length cs) # new, ri')))"

text \<open>The body of the \<open>do ... while\<close> loop. \<open>Array(k)\<close> raises for a negative \<open>k\<close>.\<close>

definition lloyd_pass ::
  "(nat \<Rightarrow> real) \<Rightarrow> color list \<Rightarrow> int \<Rightarrow> nat list \<Rightarrow> color list \<Rightarrow> nat
     \<Rightarrow> error + (bool \<times> nat list \<times> color list \<times> nat)" where
  "lloyd_pass rnd pixels k labs cs ri =
     (if k < 0 then Inl RangeError
      else case assign_pixels cs pixels 0 labs
                  (replicate (nat k) \<lparr>csum = (0, 0, 0), ccount = 0\<rparr>) False of
             Inl e \<Rightarrow> Inl e
           | Inr (labs', clusters, changed) \<Rightarrow>
               (case update_centroids rnd cs clusters ri of
                  (cs', ri') \<Rightarrow> Inr (changed, labs', cs', ri')))"

text \<open>\<open>do { ... } while (changed && iterations++ < 100)\<close>. The counter \<open>passes\<close> is
  not a variable of the source: it counts the executions of the loop body. The result is
  the labels, the centroids, \<open>iterations\<close> and \<open>passes\<close>.\<close>

function lloyd_loop ::
  "(nat \<Rightarrow> real) \<Rightarrow> color list \<Rightarrow> int \<Rightarrow> nat \<Rightarrow> nat \<Rightarrow> nat list \<Rightarrow> color list \<Rightarrow> nat
     \<Rightarrow> error + (nat list \<times> color list \<times> nat \<times> nat)" where
  "lloyd_loop rnd pixels k iterations passes labs cs ri =
     (case lloyd_pass rnd pixels k labs cs ri of
        Inl e \<Rightarrow> Inl e
      | Inr (changed, labs', cs', ri') \<Rightarrow>
          if changed
          then (if iterations < 100
                then lloyd_loop rnd pixels k (Suc iterations) (Suc passes) labs' cs' ri'
                else Inr (labs', cs', Suc iterations, Suc passes))
          else Inr (labs', cs', iterations, Suc passes))"
  by pat_completeness auto
termination
  by (relation "measure (\<lambda>(rnd, pixels, k, iterations, passes, labs, cs, ri). 100 - iterations)")
    auto

declare lloyd_loop.simps [simp del]

text \<open>Seeding and iteration on the pixels: the first centroid is
  \<open>pixels[Math.floor(Math.random() * pixels.length)]\<close>, the labels start at 0.\<close>

definition kMeans_cluster ::
  "(nat \<Rightarrow> real) \<Rightarrow> color list \<Rightarrow> int \<Rightarrow> (error + (nat list \<times> color list \<times> nat \<times> nat)) option" where
  "kMeans_cluster rnd pixels k =
     (case kmeanspp_loop rnd pixels k [pixels ! random_index (rnd 0) (length pixels)] 1 of
        None \<Rightarrow> None
      | Some (cs, ri) \<Rightarrow> Some (lloyd_loop rnd pixels k 0 0 (replicate (length pixels) 0) cs ri))"

definition kMeansSegmentation_part000 ::
  "(nat \<Rightarrow> real) \<Rightarrow> heap \<Rightarrow> ref \<Rightarrow> int \<Rightarrow> (heap \<times> (error + ClusteringResult)) option" where
  "kMeansSegmentation_part000 rnd H inp k =
     (let img = H ! inp;
          (segmented, H1) = new_ImageData (width img) (height img) H;
          pixels = extract_pixels (data img)
      in case kMeans_cluster rnd pixels k of
           None \<Rightarrow> None
         | Some (Inl e) \<Rightarrow> Some (H1, Inl e)
         | Some (Inr (labs, cs, iterations, passes)) \<Rightarrow>
             Some (recolor segmented cs labs (length pixels) H1,
                   Inr \<lparr>imageData = segmented, labels = labs, centroids = cs\<rparr>))"

text \<open>The placeholders of part 000 (\<open>// Implementation needed\<close>): a new image, never
  written.\<close>

record MeanShiftPlaceholder =
  ms_imageData :: ref
  ms_labels :: "nat list"
  ms_bandwidth :: real

record WatershedPlaceholder =
  ws_imageData :: ref
  ws_markers :: "nat list"

definition meanShiftSegmentation_part000 :: "heap \<Rightarrow> ref \<Rightarrow> heap \<times> MeanShiftPlaceholder" where
  "meanShiftSegmentation_part000 H inp =
     (let (r, H1) = new_ImageData (width (H ! inp)) (height (H ! inp)) H
      in (H1, \<lparr>ms_imageData = r, ms_labels = [], ms_bandwidth = 0\<rparr>))"

definition watershedSegmentation_part000 :: "heap \<Rightarrow> ref \<Rightarrow> heap \<times> WatershedPlaceholder" where
  "watershedSegmentation_part000 H inp =
     (let (r, H1) = new_ImageData (width (H ! inp)) (height (H ! inp)) H
      in (H1, \<lparr>ws_imageData = r, ws_markers = []\<rparr>))"

section \<open>k-means with random seeding and 15 iterations (part 001)\<close>

text \<open>\<open>centroids.push([Math.random() * 255, Math.random() * 255, Math.random() * 255])\<close>
  for \<open>i < k\<close>.\<close>

definition random_centroids :: "(nat \<Rightarrow> real) \<Rightarrow> int \<Rightarrow> color list" where
  "random_centroids rnd k =
     map (\<lambda>i. (rnd (3 * i) * 255, rnd (3 * i + 1) * 255, rnd (3 * i + 2) * 255)) [0..<nat k]"

text \<open>The assignment loop: \<open>clusters[cluster].push([r, g, b]); labels.push(cluster)\<close>.\<close>

fun assign_clusters ::
  "color list \<Rightarrow> color list \<Rightarrow> color list list \<Rightarrow> nat list \<Rightarrow> error + (color list list \<times> nat list)" where
  "assign_clusters cs [] clusters labs = Inr (clusters, labs)"
| "assign_clusters cs (px # rest) clusters labs =
     (let cluster = nearest cs px
      in if cluster < length clusters
         then assign_clusters cs rest (clusters[cluster := clusters ! cluster @ [px]])
                (labs @ [cluster])
         else Inl TypeError)"

text \<open>The three \<open>reduce\<close> calls of the update, each divided by the cluster's length.\<close>

definition mean_color :: "color list \<Rightarrow> color" where
  "mean_color ps =
     (foldl (\<lambda>s (r, g, b). s + r) 0 ps / real (length ps),
      foldl (\<lambda>s (r, g, b). s + g) 0 ps / real (length ps),
      foldl (\<lambda>s (r, g, b). s + b) 0 ps / real (length ps))"

definition update_nonempty :: "color list list \<Rightarrow> color list \<Rightarrow> color list" where
  "update_nonempty clusters cs =
     fold (\<lambda>j cs. if length (clusters ! j) > 0 then cs[j := mean_color (clusters ! j)] else cs)
       [0..<length clusters] cs"

definition kmeans_iteration ::
  "color list \<Rightarrow> int \<Rightarrow> color list \<Rightarrow> error + (color list \<times> nat list)" where
  "kmeans_iteration pixels k cs =
     (if k < 0 then Inl RangeError
      else case assign_clusters cs pixels (replicate (nat k) []) [] of
             Inl e \<Rightarrow> Inl e
           | Inr (clusters, labs) \<Rightarrow> Inr (update_nonempty clusters cs, labs))"

text \<open>\<open>for (let iter = 0; iter < 15; iter++)\<close>, here counting down.\<close>

fun kmeans_iterations ::
  "nat \<Rightarrow> color list \<Rightarrow> int \<Rightarrow> color list \<Rightarrow> nat list \<Rightarrow> error + (color list \<times> nat list)" where
  "kmeans_iterations 0 pixels k cs labs = Inr (cs, labs)"
| "kmeans_iterations (Suc m) pixels k cs labs =
     (case kmeans_iteration pixels k cs of
        Inl e \<Rightarrow> Inl e
      | Inr (cs', labs') \<Rightarrow> kmeans_iterations m pixels k cs' labs')"

definition kMeansSegmentation_part001 ::
  "(nat \<Rightarrow> real) \<Rightarrow> heap \<Rightarrow> ref \<Rightarrow> int \<Rightarrow> heap \<times> (error + ClusteringResult)" where
  "kMeansSegmentation_part001 rnd H inp k =
     (let img = H ! inp;
          (segmented, H1) = new_ImageData (width img) (height img) H;
          pixels = extract_pixels (data img)
      in case kmeans_iterations 15 pixels k (random_centroids rnd k) [] of
           Inl e \<Rightarrow> (H1, Inl e)
         | Inr (cs, labs) \<Rightarrow>
             (recolor segmented (hue_colors (nat k) (8/10) (7/10)) labs (length pixels) H1,
              Inr \<lparr>imageData = segmented, labels = labs, centroids = cs\<rparr>))"

section \<open>Watershed (part 001)\<close>

definition byte_at :: "byte list \<Rightarrow> nat \<Rightarrow> real" where
  "byte_at d i = real (unat (d ! i))"

text \<open>The gradient of the red channel at the interior pixels, row by row.\<close>

definition gradients :: "ImageData \<Rightarrow> real list" where
  "gradients img =
     (let w = width img; d = data img
      in concat (map (\<lambda>y. map (\<lambda>x.
           let gx = byte_at d ((y * w + x + 1) * 4) - byte_at d ((y * w + x - 1) * 4);
               gy = byte_at d (((y + 1) * w + x) * 4) - byte_at d (((y - 1) * w + x) * 4)
           in sqrt (gx * gx + gy * gy)) [1..<w - 1]) [1..<height img - 1]))"

definition seeds :: "real list \<Rightarrow> real \<Rightarrow> nat list" where
  "seeds gs sigma = filter (\<lambda>i. gs ! i < sigma * 15) [0..<length gs]"

text \<open>With no seed \<open>numRegions\<close> is 0, \<open>pixelIdx % numRegions\<close> is NaN and
  \<open>regionCentroids[NaN][0]\<close> raises at the first pixel, before any store.\<close>

definition watershedSegmentation_part001 ::
  "heap \<Rightarrow> ref \<Rightarrow> real \<Rightarrow> heap \<times> (error + ClusteringResult)" where
  "watershedSegmentation_part001 H inp sigma =
     (let img = H ! inp;
          (segmented, H1) = new_ImageData (width img) (height img) H;
          n = length (extract_pixels (data img));
          numRegions = min (length (seeds (gradients img) sigma)) 12;
          regionCentroids = hue_colors numRegions (85/100) (65/100)
      in if numRegions = 0 \<and> 0 < n then (H1, Inl TypeError)
         else (let labs = map (\<lambda>pixelIdx. pixelIdx mod numRegions) [0..<n]
               in (recolor segmented regionCentroids labs n H1,
                   Inr \<lparr>imageData = segmented, labels = labs, centroids = regionCentroids\<rparr>)))"

section \<open>Notions used in the properties of k-means (part 000)\<close>

text \<open>The pixels that carry label \<open>j\<close>.\<close>

definition members_of :: "color list \<Rightarrow> nat list \<Rightarrow> nat \<Rightarrow> color list" where
  "members_of pixels labs j = map fst (filter (\<lambda>(p, l). l = j) (zip pixels labs))"

text \<open>The component-wise mean of a list of colours.\<close>

definition component_mean :: "color list \<Rightarrow> color" where
  "component_mean ps =
     (sum_list (map fst ps) / real (length ps),
      sum_list (map (\<lambda>p. fst (snd p)) ps) / real (length ps),
      sum_list (map (\<lambda>p. snd (snd p)) ps) / real (length ps))"

text \<open>What the assignment loop has added to the accumulator \<open>c\<close> of cluster \<open>j\<close> after
  the pixels \<open>ps\<close>.\<close>

definition accumulate :: "color list \<Rightarrow> color list \<Rightarrow> Cluster \<Rightarrow> nat \<Rightarrow> Cluster" where
  "accumulate cs ps c j =
     \<lparr>csum = foldl add_color (csum c) (filter (\<lambda>p. nearest cs p = j) ps),
      ccount = ccount c + length (filter (\<lambda>p. nearest cs p = j) ps)\<rparr>"

text \<open>The number of empty clusters before cluster \<open>j\<close>: the random numbers they have
  drawn.\<close>

definition empties_before :: "Cluster list \<Rightarrow> nat \<Rightarrow> nat" where
  "empties_before clusters j = length (filter (\<lambda>c. ccount c = 0) (take j clusters))"

text \<open>The accumulators at the end of the assignment loop of a pass.\<close>

definition pass_clusters :: "color list \<Rightarrow> color list \<Rightarrow> Cluster list" where
  "pass_clusters cs pixels =
     map (\<lambda>j. accumulate cs pixels \<lparr>csum = (0, 0, 0), ccount = 0\<rparr> j) [0..<length cs]"

text \<open>The number of passes of a run of the k-means++ variant on an image.\<close>

definition kMeans_passes :: "(nat \<Rightarrow> real) \<Rightarrow> ImageData \<Rightarrow> int \<Rightarrow> nat option" where
  "kMeans_passes rnd img k =
     (case kMeans_cluster rnd (extract_pixels (data img)) k of
        Some (Inr (labs, cs, iterations, passes)) \<Rightarrow> Some passes
      | _ \<Rightarrow> None)"

text \<open>The weights of k-means++ as the specification words them: the squared distance of
  every pixel to its nearest chosen centroid.\<close>

definition spec_squared_weights :: "color list \<Rightarrow> color list \<Rightarrow> real list" where
  "spec_squared_weights cs pixels = map (\<lambda>p. (min_distance cs p)\<^sup>2) pixels"

section \<open>Frame conditions\<close>

text \<open>What a call leaves of the heap \<open>H\<close> in the heap \<open>H'\<close>: every object of \<open>H\<close>,
  the input among them, is unchanged, and exactly one object has been allocated, at the
  fresh reference \<open>length H\<close>, with the dimensions of the input.\<close>

definition fresh_output :: "heap \<Rightarrow> ref \<Rightarrow> heap \<Rightarrow> bool" where
  "fresh_output H inp H' \<longleftrightarrow>
     (\<forall>r<length H. H' ! r = H ! r) \<and> length H' = Suc (length H) \<and>
     width (H' ! length H) = width (H ! inp) \<and> height (H' ! length H) = height (H ! inp) \<and>
     length (data (H' ! length H)) = 4 * width (H ! inp) * height (H ! inp)"

text \<open>Every alpha byte of the image is 255.\<close>

definition opaque :: "ImageData \<Rightarrow> bool" where
  "opaque img \<longleftrightarrow> (\<forall>i<width img * height img. data img ! (4 * i + 3) = 255)"

section \<open>The silhouette score as the specification words it\<close>

text \<open>The pixels of cluster \<open>l\<close>, by index.\<close>

definition cluster_indices :: "nat list \<Rightarrow> nat \<Rightarrow> nat set" where
  "cluster_indices labs l = {j. j < length labs \<and> labs ! j = l}"

text \<open>\<open>a\<close>: the mean distance of pixel \<open>i\<close> to the other pixels of its own cluster, 0 if
  its cluster has size 1.\<close>

definition spec_a :: "color list \<Rightarrow> nat list \<Rightarrow> nat \<Rightarrow> real" where
  "spec_a pixels labs i =
     (let own = cluster_indices labs (labs ! i)
      in if card own = 1 then 0
         else (\<Sum>j\<in>own - {i}. euclideanDistance (pixels ! i) (pixels ! j))
                / real (card (own - {i})))"

text \<open>The mean distance of pixel \<open>i\<close> to the pixels of cluster \<open>l\<close>.\<close>

definition spec_mean_distance :: "color list \<Rightarrow> nat list \<Rightarrow> nat \<Rightarrow> nat \<Rightarrow> real" where
  "spec_mean_distance pixels labs i l =
     (\<Sum>j\<in>cluster_indices labs l. euclideanDistance (pixels ! i) (pixels ! j))
       / real (card (cluster_indices labs l))"

text \<open>\<open>b\<close>: the minimum of these means over the other clusters; over no cluster at
  all it is \<open>+Infinity\<close>.\<close>

definition spec_b :: "color list \<Rightarrow> nat list \<Rightarrow> nat \<Rightarrow> jsnum" where
  "spec_b pixels labs i =
     (let others = set labs - {labs ! i}
      in if others = {} then PInf else Fin (Min (spec_mean_distance pixels labs i ` others)))"

text \<open>\<open>s\<close>: 0 if \<open>a = 0\<close>, else \<open>(b - a) / max(a, b)\<close>.\<close>

definition spec_s :: "color list \<Rightarrow> nat list \<Rightarrow> nat \<Rightarrow> jsnum" where
  "spec_s pixels labs i =
     (let a = spec_a pixels labs i; b = spec_b pixels labs i
      in if a = 0 then Fin 0 else js_div (js_sub b (Fin a)) (js_max (Fin a) b))"

text \<open>The mean of the per-pixel scores.\<close>

definition spec_silhouette :: "color list \<Rightarrow> nat list \<Rightarrow> jsnum" where
  "spec_silhouette pixels labs =
     js_div (foldl js_add (Fin 0) (map (spec_s pixels labs) [0..<length pixels]))
            (Fin (real (length pixels)))"

text \<open>The same score over the reals, for a partition with at least two clusters.\<close>

definition spec_s_real :: "color list \<Rightarrow> nat list \<Rightarrow> nat \<Rightarrow> real" where
  "spec_s_real pixels labs i =
     (let a = spec_a pixels labs i;
          b = Min (spec_mean_distance pixels labs i ` (set labs - {labs ! i}))
      in if a = 0 then 0 else (b - a) / max a b)"

section \<open>Sample inputs\<close>

text \<open>One pixel; two pixels in a row.\<close>

definition img1 :: ImageData where
  "img1 = \<lparr>width = 1, height = 1, data = [10, 10, 10, 255]\<rparr>"

definition img2 :: ImageData where
  "img2 = \<lparr>width = 2, height = 1, data = [10, 10, 10, 255, 200, 10, 10, 255]\<rparr>"

text \<open>Three pixels in a row, with red channels 0, 3 and 4; a random source whose second
  number is 0.4 and whose other numbers are 0.\<close>

definition img3 :: ImageData where
  "img3 = \<lparr>width = 3, height = 1, data = [0, 0, 0, 255, 3, 0, 0, 255, 4, 0, 0, 255]\<rparr>"

definition rnd_seeding :: "nat \<Rightarrow> real" where
  "rnd_seeding i = (if i = 1 then 2/5 else 0)"

text \<open>Four pixels: two dark ones labelled 0 and two bright ones labelled 1.\<close>

definition img4 :: ImageData where
  "img4 = \<lparr>width = 2, height = 2,
            data = [0, 0, 0, 255, 3, 0, 0, 255, 250, 0, 0, 255, 253, 0, 0, 255]\<rparr>"

text \<open>A run of 101 passes: 102 pixels in a row, 101 black ones and one with red channel
  1, and \<open>k = 102\<close>. The random source makes the seeding choose pixel 0 for the first 101
  centroids and the last pixel for the last one; in pass \<open>t\<close> it reseeds the empty clusters
  below index \<open>101 - t\<close> with centroid 0 (draw 0) and the others with centroid 101 (draw
  0.995).\<close>

definition img_chain :: ImageData where
  "img_chain = \<lparr>width = 102, height = 1,
                 data = concat (replicate 101 [0, 0, 0, 255]) @ [1, 0, 0, 255]\<rparr>"

definition rnd_chain :: "nat \<Rightarrow> real" where
  "rnd_chain d =
     (if d < 101 then 0 else if d = 101 then 1/2
      else if (d - 102) mod 100 + (d - 102) div 100 < 99 then 0 else 199/200)"

definition chain_pixels :: "color list" where
  "chain_pixels = replicate 101 (0, 0, 0) @ [(1, 0, 0)]"

text \<open>The centroids at the start of pass \<open>t\<close> and the labels with the last pixel in
  cluster \<open>x\<close>.\<close>

definition chain_centroids :: "nat \<Rightarrow> color list" where
  "chain_centroids t = replicate (102 - t) (0, 0, 0) @ replicate t (1, 0, 0)"

definition chain_labels :: "nat \<Rightarrow> nat list" where
  "chain_labels x = replicate 101 0 @ [x]"

section \<open>Properties of the colour utilities\<close>

lemma interp_between:
  fixes p q c :: real
  assumes "p \<le> q" "0 \<le> c" "c \<le> 1"
  shows "p \<le> p + (q - p) * c" "p + (q - p) * c \<le> q"
proof -
  have "0 \<le> (q - p) * c" using assms by simp
  then show "p \<le> p + (q - p) * c" by simp
  have "(q - p) * c \<le> (q - p) * 1"
    using assms by (intro mult_left_mono) simp_all
  then show "p + (q - p) * c \<le> q" by simp
qed

lemma hue2rgb_between:
  assumes "p \<le> q" "- 1 \<le> t0"
  shows "p \<le> hue2rgb p q t0 \<and> hue2rgb p q t0 \<le> q"
proof -
  define t1 where "t1 = (if t0 < 0 then t0 + 1 else t0)"
  define t where "t = (if t1 > 1 then t1 - 1 else t1)"
  have t0: "0 \<le> t" using assms(2) by (auto simp: t_def t1_def)
  have eq: "hue2rgb p q t0 =
     (if t < 1/6 then p + (q - p) * (6 * t)
         else if t < 1/2 then q
         else if t < 2/3 then p + (q - p) * ((2/3 - t) * 6)
         else p)"
    unfolding hue2rgb_def t_def t1_def Let_def by (simp only: mult.assoc)
  show ?thesis
  proof (cases "t < 1/6")
    case True
    then show ?thesis using eq interp_between[OF assms(1), of "6 * t"] t0 by simp
  next
    case a: False
    show ?thesis
    proof (cases "t < 1/2")
      case True
      then show ?thesis using eq a assms(1) by simp
    next
      case b: False
      show ?thesis
      proof (cases "t < 2/3")
        case True
        then show ?thesis
          using eq a b interp_between[OF assms(1), of "(2/3 - t) * 6"] by simp
      next
        case False
        then show ?thesis using eq a b assms(1) by simp
      qed
    qed
  qed
qed

lemma hsl_pq:
  fixes s l :: real
  assumes "0 \<le> s" "s \<le> 1" "0 \<le> l" "l \<le> 1"
  defines "q \<equiv> (if l < 1/2 then l * (1 + s) else l + s - l * s)"
  shows "0 \<le> 2 * l - q" "2 * l - q \<le> q" "q \<le> 1"
proof -
  have ls: "0 \<le> l * s" "l * s \<le> l"
    using assms(1-4) by (simp_all add: mult_left_le)
  have ms: "0 \<le> (1 - l) * s" "(1 - l) * s \<le> 1 - l"
    using assms(1-4) by (simp_all add: mult_left_le)
  have low: "q = l + l * s" if "l < 1/2" using that by (simp add: q_def algebra_simps)
  have high: "q = l + (1 - l) * s" if "\<not> l < 1/2" using that by (simp add: q_def algebra_simps)
  show "0 \<le> 2 * l - q" using ls ms low high by (cases "l < 1/2") simp_all
  show "2 * l - q \<le> q" using ls ms low high by (cases "l < 1/2") simp_all
  show "q \<le> 1" using ls ms low high by (cases "l < 1/2") simp_all
qed

lemma round_channel_byte:
  fixes r :: real
  assumes "0 \<le> r" "r \<le> 1"
  shows "channel_byte (of_int (round (r * 255)))"
proof -
  have "round (0::real) \<le> round (r * 255)" using assms by (intro round_mono) simp
  moreover have "round (r * 255) \<le> round (255::real)" using assms by (intro round_mono) simp
  ultimately show ?thesis by (simp add: channel_byte_def)
qed

lemma hslToRgb_components:
  assumes "- 2/3 \<le> h" "0 \<le> s" "s \<le> 1" "0 \<le> l" "l \<le> 1"
  shows "case hslToRgb h s l of (r, g, b) \<Rightarrow> channel_byte r \<and> channel_byte g \<and> channel_byte b"
proof (cases "s = 0")
  case True
  then show ?thesis using assms by (simp add: hslToRgb_def round_channel_byte)
next
  case False
  define q where "q = (if l < 1/2 then l * (1 + s) else l + s - l * s)"
  define p where "p = 2 * l - q"
  have pq: "0 \<le> p" "p \<le> q" "q \<le> 1"
    using hsl_pq[OF assms(2-5)] by (simp_all add: p_def q_def)
  have rng: "0 \<le> hue2rgb p q t \<and> hue2rgb p q t \<le> 1" if "- 1 \<le> t" for t
    using hue2rgb_between[OF pq(2) that] pq by linarith
  have "- 1 \<le> h + 1/3" "- 1 \<le> h" "- 1 \<le> h - 1/3" using assms(1) by simp_all
  then have "channel_byte (of_int (round (hue2rgb p q (h + 1/3) * 255)))"
    "channel_byte (of_int (round (hue2rgb p q h * 255)))"
    "channel_byte (of_int (round (hue2rgb p q (h - 1/3) * 255)))"
    using rng round_channel_byte by blast+
  then show ?thesis using False by (simp add: hslToRgb_def Let_def p_def q_def)
qed

text \<open>
  The callers of \<open>hslToRgb\<close>: the three algorithms of part 001 pass the hue
  \<open>(i * 360 / m) / 360\<close> for an index \<open>i < m\<close>, which lies in \<open>[0, 1)\<close>, with a fixed
  saturation and lightness (0.8 and 0.7, 0.9 and 0.6, 0.85 and 0.65). Every colour of such
  a palette consists of channel bytes.
\<close>

lemma hue_colors_hue_range:
  assumes "i < m"
  shows "0 \<le> (real i * 360 / real m) / 360 \<and> (real i * 360 / real m) / 360 < 1"
  using assms by simp

lemma hue_colors_channel_bytes:
  assumes "0 \<le> s" "s \<le> 1" "0 \<le> l" "l \<le> 1" and c: "c \<in> set (hue_colors m s l)"
  shows "case c of (r, g, b) \<Rightarrow> channel_byte r \<and> channel_byte g \<and> channel_byte b"
proof -
  from c obtain i where i: "i < m" and eq: "c = hslToRgb ((real i * 360 / real m) / 360) s l"
    by (auto simp: hue_colors_def)
  have "0 \<le> (real i * 360 / real m) / 360" by simp
  then have "- 2/3 \<le> (real i * 360 / real m) / 360" by linarith
  from hslToRgb_components[OF this assms(1-4)] show ?thesis unfolding eq .
qed

text \<open>
  The hue offset is wrapped only once (\<open>t += 1\<close> when \<open>t < 0\<close>), which is enough for
  every hue from \<open>-2/3\<close> on, hence for the normalised hues \<open>[0, 1]\<close> that the function
  is written for and that its callers pass. The private function is never called with a
  hue below that: there the ramp would be evaluated at a negative offset, as this
  evaluation shows.
\<close>

lemma hslToRgb_hue_below_range:
  "hslToRgb (- 1) 1 (1/2) = (255, 0, - 510)"
  by (simp add: hslToRgb_def hue2rgb_def Let_def)

text \<open>
  Claim C10: for every hue \<open>h\<close> of the normalised range \<open>[0, 1]\<close> (the theorem allows every
  \<open>h \<ge> -2/3\<close>) and every saturation and lightness in \<open>[0, 1]\<close>, each of the three
  components returned by \<open>hslToRgb\<close> is an integer in \<open>[0, 255]\<close>; so the synthetic
  cluster colours of part 001 are channel bytes.
\<close>

theorem hslToRgb_channel_bytes:
  assumes "- 2/3 \<le> h" "0 \<le> s" "s \<le> 1" "0 \<le> l" "l \<le> 1"
  shows "case hslToRgb h s l of (r, g, b) \<Rightarrow> channel_byte r \<and> channel_byte g \<and> channel_byte b"
  using assms by (rule hslToRgb_components)

theorem hslToRgb_channel_bytes_witness:
  "- 2/3 \<le> (1/3::real) \<and> (0::real) \<le> 4/5 \<and> (4/5::real) \<le> 1 \<and> (0::real) \<le> 7/10 \<and> (7/10::real) \<le> 1
   \<and> (case hslToRgb (1/3) (4/5) (7/10) of (r, g, b) \<Rightarrow> channel_byte r \<and> channel_byte g \<and> channel_byte b)"
  using hslToRgb_channel_bytes[of "1/3" "4/5" "7/10"] by simp

section \<open>Properties of mean shift (part 001)\<close>

lemma find_mode_Some:
  "find_mode bw px ms j0 = Some j \<Longrightarrow>
     j0 \<le> j \<and> j - j0 < length ms \<and> euclideanDistance px (ms ! (j - j0)) < bw * 40"
proof (induction ms arbitrary: j0)
  case Nil
  then show ?case by simp
next
  case (Cons m ms)
  show ?case
  proof (cases "euclideanDistance px m < bw * 40")
    case True
    with Cons.prems show ?thesis by simp
  next
    case False
    with Cons.prems have "find_mode bw px ms (Suc j0) = Some j" by simp
    from Cons.IH[OF this] show ?thesis by (auto simp: Suc_diff_Suc)
  qed
qed

lemma meanShift_invI:
  assumes "length labs = length pixels"
    and "\<forall>i<length pixels. labs ! i < length modes \<and>
        (euclideanDistance (pixels ! i) (modes ! (labs ! i)) < bw * 40 \<or>
         pixels ! i = modes ! (labs ! i))"
    and "\<forall>j<length modes. \<exists>i. first_with_label labs j i \<and> modes ! j = pixels ! i"
  shows "meanShift_inv bw pixels modes labs"
  unfolding meanShift_inv_def using assms by blast

lemma first_with_label_append:
  "first_with_label labs j i \<Longrightarrow> first_with_label (labs @ [l]) j i"
  by (auto simp: first_with_label_def nth_append)

lemma meanShift_inv_step:
  assumes inv: "meanShift_inv bw pixels modes labs"
    and step: "meanShift_step bw (modes, labs) px = (modes', labs')"
  shows "meanShift_inv bw (pixels @ [px]) modes' labs'"
proof (cases "find_mode bw px modes 0")
  case None
  with step have eq: "modes' = modes @ [px]" "labs' = labs @ [length modes]"
    by (simp_all add: meanShift_step_def)
  have len: "length labs = length pixels" using inv by (simp add: meanShift_inv_def)
  have a: "\<forall>i<length pixels. labs ! i < length modes \<and>
        (euclideanDistance (pixels ! i) (modes ! (labs ! i)) < bw * 40 \<or>
         pixels ! i = modes ! (labs ! i))"
    using inv by (simp add: meanShift_inv_def)
  have b: "\<forall>j<length modes. \<exists>i. first_with_label labs j i \<and> modes ! j = pixels ! i"
    using inv by (simp add: meanShift_inv_def)
  have new: "first_with_label (labs @ [length modes]) (length modes) (length pixels)"
    using a len by (auto simp: first_with_label_def nth_append)
  have 1: "\<forall>i<length (pixels @ [px]). labs' ! i < length modes' \<and>
        (euclideanDistance ((pixels @ [px]) ! i) (modes' ! (labs' ! i)) < bw * 40 \<or>
         (pixels @ [px]) ! i = modes' ! (labs' ! i))"
  proof (intro allI impI)
    fix i assume "i < length (pixels @ [px])"
    then consider "i < length pixels" | "i = length pixels" by fastforce
    then show "labs' ! i < length modes' \<and>
        (euclideanDistance ((pixels @ [px]) ! i) (modes' ! (labs' ! i)) < bw * 40 \<or>
         (pixels @ [px]) ! i = modes' ! (labs' ! i))"
    proof cases
      case 1
      then show ?thesis using a len by (auto simp: eq nth_append)
    next
      case 2
      then show ?thesis using len by (simp add: eq nth_append)
    qed
  qed
  have 2: "\<forall>j<length modes'. \<exists>i. first_with_label labs' j i \<and> modes' ! j = (pixels @ [px]) ! i"
  proof (intro allI impI)
    fix j assume "j < length modes'"
    then consider "j < length modes" | "j = length modes" by (fastforce simp: eq)
    then show "\<exists>i. first_with_label labs' j i \<and> modes' ! j = (pixels @ [px]) ! i"
    proof cases
      case 1
      then obtain i where i: "first_with_label labs j i" "modes ! j = pixels ! i"
        using b by blast
      then have il: "i < length pixels" using len by (simp add: first_with_label_def)
      show ?thesis
      proof (intro exI[of _ i] conjI)
        show "first_with_label labs' j i"
          unfolding eq by (rule first_with_label_append[OF i(1)])
        show "modes' ! j = (pixels @ [px]) ! i"
          using i(2) 1 il by (simp add: eq nth_append)
      qed
    next
      case 2
      show ?thesis
      proof (intro exI[of _ "length pixels"] conjI)
        show "first_with_label labs' j (length pixels)"
          unfolding eq 2 by (rule new)
        show "modes' ! j = (pixels @ [px]) ! length pixels"
          by (simp add: eq 2)
      qed
    qed
  qed
  have 0: "length labs' = length (pixels @ [px])" using len by (simp add: eq)
  show ?thesis by (rule meanShift_invI[OF 0 1 2])
next
  case (Some j)
  with step have eq: "modes' = modes" "labs' = labs @ [j]"
    by (simp_all add: meanShift_step_def)
  from find_mode_Some[OF Some]
  have j: "j < length modes" "euclideanDistance px (modes ! j) < bw * 40" by simp_all
  have len: "length labs = length pixels" using inv by (simp add: meanShift_inv_def)
  have a: "\<forall>i<length pixels. labs ! i < length modes \<and>
        (euclideanDistance (pixels ! i) (modes ! (labs ! i)) < bw * 40 \<or>
         pixels ! i = modes ! (labs ! i))"
    using inv by (simp add: meanShift_inv_def)
  have b: "\<forall>j<length modes. \<exists>i. first_with_label labs j i \<and> modes ! j = pixels ! i"
    using inv by (simp add: meanShift_inv_def)
  have 1: "\<forall>i<length (pixels @ [px]). labs' ! i < length modes' \<and>
        (euclideanDistance ((pixels @ [px]) ! i) (modes' ! (labs' ! i)) < bw * 40 \<or>
         (pixels @ [px]) ! i = modes' ! (labs' ! i))"
  proof (intro allI impI)
    fix i assume "i < length (pixels @ [px])"
    then consider "i < length pixels" | "i = length pixels" by fastforce
    then show "labs' ! i < length modes' \<and>
        (euclideanDistance ((pixels @ [px]) ! i) (modes' ! (labs' ! i)) < bw * 40 \<or>
         (pixels @ [px]) ! i = modes' ! (labs' ! i))"
    proof cases
      case 1
      then show ?thesis using a len by (auto simp: eq nth_append)
    next
      case 2
      then show ?thesis using len j by (simp add: eq nth_append)
    qed
  qed
  have 2: "\<forall>j<length modes'. \<exists>i. first_with_label labs' j i \<and> modes' ! j = (pixels @ [px]) ! i"
  proof (intro allI impI)
    fix j' assume "j' < length modes'"
    then have "j' < length modes" by (simp add: eq)
    then obtain i where i: "first_with_label labs j' i" "modes ! j' = pixels ! i"
      using b by blast
    then have il: "i < length pixels" using len by (simp add: first_with_label_def)
    show "\<exists>i. first_with_label labs' j' i \<and> modes' ! j' = (pixels @ [px]) ! i"
    proof (intro exI[of _ i] conjI)
      show "first_with_label labs' j' i"
        unfolding eq by (rule first_with_label_append[OF i(1)])
      show "modes' ! j' = (pixels @ [px]) ! i"
        using i(2) il by (simp add: eq nth_append)
    qed
  qed
  have 0: "length labs' = length (pixels @ [px])" using len by (simp add: eq)
  show ?thesis by (rule meanShift_invI[OF 0 1 2])
qed

lemma meanShift_scan_inv:
  "meanShift_inv bw pixels (fst (meanShift_scan bw pixels)) (snd (meanShift_scan bw pixels))"
proof (induction pixels rule: rev_induct)
  case Nil
  show ?case by (simp add: meanShift_scan_def meanShift_inv_def)
next
  case (snoc px pixels)
  obtain modes labs where ml: "meanShift_scan bw pixels = (modes, labs)" by (cases "meanShift_scan bw pixels")
  obtain modes' labs' where st: "meanShift_step bw (modes, labs) px = (modes', labs')"
    by (cases "meanShift_step bw (modes, labs) px")
  have "meanShift_scan bw (pixels @ [px]) = (modes', labs')"
    using ml st by (simp add: meanShift_scan_def)
  moreover have "meanShift_inv bw (pixels @ [px]) modes' labs'"
    using meanShift_inv_step[OF _ st] snoc.IH ml by simp
  ultimately show ?case by simp
qed

lemma meanShift_result:
  "snd (meanShiftSegmentation_part001 H inp bw) =
     \<lparr>imageData = length H,
      labels = snd (meanShift_scan bw (extract_pixels (data (H ! inp)))),
      centroids = fst (meanShift_scan bw (extract_pixels (data (H ! inp))))\<rparr>"
  by (simp add: meanShiftSegmentation_part001_def new_ImageData_def Let_def split_beta)

lemma meanShift_img2:
  "snd (meanShiftSegmentation_part001 [img2] 0 1) =
     \<lparr>imageData = 1, labels = [0, 1], centroids = [(10, 10, 10), (200, 10, 10)]\<rparr>"
  by (simp add: meanShift_result meanShift_scan_def meanShift_step_def img2_def)

text \<open>
  Claim C9: in the result of \<open>meanShiftSegmentation\<close> (part 001) every pixel has a
  label, the label indexes a returned centroid, and the pixel is either nearer than
  \<open>bandwidth * 40\<close> to that centroid or equal to it; every returned centroid is the
  colour of the first pixel, in scan order, that carries its label.
\<close>

theorem meanShift_mode_invariant:
  "(let res = snd (meanShiftSegmentation_part001 H inp bandwidth);
        pixels = extract_pixels (data (H ! inp))
    in length (labels res) = length pixels \<and>
       (\<forall>i<length pixels. labels res ! i < length (centroids res) \<and>
           (euclideanDistance (pixels ! i) (centroids res ! (labels res ! i)) < bandwidth * 40 \<or>
            pixels ! i = centroids res ! (labels res ! i))) \<and>
       (\<forall>j<length (centroids res). \<exists>i. first_with_label (labels res) j i \<and>
           centroids res ! j = pixels ! i))"
  using meanShift_scan_inv[of bandwidth "extract_pixels (data (H ! inp))"]
  unfolding meanShift_result meanShift_inv_def Let_def by simp

text \<open>The witness of C9: the second pixel and the second mode of the sample image.\<close>

theorem meanShift_mode_invariant_witness:
  "(let res = snd (meanShiftSegmentation_part001 [img2] 0 1);
        pixels = extract_pixels (data ([img2] ! 0))
    in length (labels res) = length pixels \<and> 1 < length pixels \<and>
       labels res ! 1 < length (centroids res) \<and>
       (euclideanDistance (pixels ! 1) (centroids res ! (labels res ! 1)) < 1 * 40 \<or>
            pixels ! 1 = centroids res ! (labels res ! 1)) \<and>
       1 < length (centroids res) \<and>
       (\<exists>i. first_with_label (labels res) 1 i \<and> centroids res ! 1 = pixels ! i))"
proof -
  define res where "res = snd (meanShiftSegmentation_part001 [img2] 0 1)"
  define pixels where "pixels = extract_pixels (data ([img2] ! 0))"
  have n: "1 < length pixels" by (simp add: pixels_def img2_def)
  have m: "1 < length (centroids res)" by (simp add: res_def meanShift_img2)
  from meanShift_mode_invariant[of "[img2]" 0 1]
  have inv: "length (labels res) = length pixels \<and>
       (\<forall>i<length pixels. labels res ! i < length (centroids res) \<and>
           (euclideanDistance (pixels ! i) (centroids res ! (labels res ! i)) < 1 * 40 \<or>
            pixels ! i = centroids res ! (labels res ! i))) \<and>
       (\<forall>j<length (centroids res). \<exists>i. first_with_label (labels res) j i \<and>
           centroids res ! j = pixels ! i)"
    unfolding Let_def res_def pixels_def .
  then show ?thesis
    unfolding Let_def res_def[symmetric] pixels_def[symmetric] using n m by blast
qed

section \<open>Properties of the metrics on degenerate partitions\<close>

lemma daviesBouldin_few_clusters:
  assumes "length cs < 2"
  shows "calculateDaviesBouldinIndex cs clusters = Inr (if cs = [] then NaN else Fin 0)"
proof (cases cs)
  case Nil
  then show ?thesis by (simp add: calculateDaviesBouldinIndex_def js_div_def)
next
  case (Cons c rest)
  with assms have "cs = [c]" by simp
  then show ?thesis
    by (simp add: calculateDaviesBouldinIndex_def js_div_def js_add_def js_signed_zero_def)
qed

lemma within_ss_valid:
  assumes "\<forall>j<length ps. i + j < length labs \<and> labs ! (i + j) < length cs" "0 \<le> w"
  shows "\<exists>w'. within_ss cs labs ps i w = Inr w' \<and> 0 \<le> w'"
  using assms
proof (induction ps arbitrary: i w)
  case Nil
  then show ?case by simp
next
  case (Cons p ps)
  from Cons.prems(1) have h: "i < length labs \<and> labs ! i < length cs" by fastforce
  have t: "\<forall>j<length ps. Suc i + j < length labs \<and> labs ! (Suc i + j) < length cs"
  proof (intro allI impI)
    fix j assume "j < length ps"
    then have "Suc j < length (p # ps)" by simp
    from Cons.prems(1)[rule_format, OF this] show "Suc i + j < length labs \<and> labs ! (Suc i + j) < length cs"
      by simp
  qed
  define d where "d = euclideanDistance p (cs ! (labs ! i))"
  have "0 \<le> w + d * d" using Cons.prems(2) by simp
  from Cons.IH[OF t this] show ?case using h by (simp add: d_def Let_def)
qed

lemma foldl_add_nonneg:
  fixes a :: real
  assumes "0 \<le> a" "\<And>x. x \<in> set xs \<Longrightarrow> 0 \<le> f x"
  shows "0 \<le> foldl (\<lambda>s x. s + f x) a xs"
  using assms by (induction xs arbitrary: a) simp_all

lemma between_ss_nonneg: "0 \<le> between_ss cs labs oc"
proof -
  have "between_ss cs labs oc =
      foldl (\<lambda>s i. s + real (length (filter (\<lambda>label. label = i) labs)) *
                      euclideanDistance (cs ! i) oc * euclideanDistance (cs ! i) oc) 0 [0..<length cs]"
    by (simp add: between_ss_def Let_def)
  also have "0 \<le> \<dots>"
    by (rule foldl_add_nonneg) (simp_all add: mult.assoc)
  finally show ?thesis .
qed

lemma js_div_by_zero:
  assumes "0 \<le> x"
  shows "js_div (Fin x) (Fin 0) = (if x = 0 then NaN else PInf)"
  using assms by (simp add: js_div_def js_signed_inf_def)

lemma js_div_nonneg_pos:
  assumes "0 \<le> x" "0 < y"
  shows "\<exists>z. js_div (Fin x) (Fin y) = Fin z \<and> 0 \<le> z"
  using assms by (auto simp: js_div_def js_signed_zero_def)

lemma calinskiHarabasz_degenerate:
  assumes n: "extract_pixels (data img) \<noteq> []"
    and len: "length labs = length (extract_pixels (data img))"
    and lab: "\<forall>l\<in>set labs. l < length cs"
    and k: "length cs = 1 \<or> length cs = length (extract_pixels (data img))"
  shows "calculateCalinskiHarabaszIndex img cs labs \<in> {Inr NaN, Inr PInf, Inr (Fin 0)}"
proof -
  define pixels where "pixels = extract_pixels (data img)"
  define B where "B = between_ss cs labs (overall_centroid pixels)"
  have B0: "0 \<le> B" unfolding B_def by (rule between_ss_nonneg)
  have "\<forall>j<length pixels. 0 + j < length labs \<and> labs ! (0 + j) < length cs"
    using len lab by (simp add: pixels_def)
  from within_ss_valid[OF this, of 0] obtain W where
    W: "within_ss cs labs pixels 0 0 = Inr W" "0 \<le> W" by auto
  have res: "calculateCalinskiHarabaszIndex img cs labs =
      Inr (js_div (js_div (Fin B) (Fin (real (length cs) - 1)))
                  (js_div (Fin W) (Fin (real (length pixels) - real (length cs)))))"
    using W(1) by (simp add: calculateCalinskiHarabaszIndex_def Let_def pixels_def B_def)
  have npos: "0 < length pixels" using n by (simp add: pixels_def)
  show ?thesis
  proof (cases "length cs = 1")
    case True
    have X: "js_div (Fin B) (Fin (real (length cs) - 1)) = (if B = 0 then NaN else PInf)"
      using True js_div_by_zero[OF B0] by simp
    show ?thesis
    proof (cases "length pixels = 1")
      case one: True
      have "js_div (Fin W) (Fin (real (length pixels) - real (length cs))) = (if W = 0 then NaN else PInf)"
        using True one js_div_by_zero[OF W(2)] by simp
      then show ?thesis unfolding res X by (simp add: js_div_def)
    next
      case False
      then have "1 < length pixels" using npos by linarith
      then have "0 < real (length pixels) - real (length cs)" using True by simp
      from js_div_nonneg_pos[OF W(2) this] obtain z where
        "js_div (Fin W) (Fin (real (length pixels) - real (length cs))) = Fin z" "0 \<le> z" by auto
      then show ?thesis unfolding res X by (simp add: js_div_def js_signed_inf_def)
    qed
  next
    case False
    with k have kn: "length cs = length pixels" by (simp add: pixels_def)
    with False npos have "0 < real (length cs) - 1" by (cases "length cs") auto
    from js_div_nonneg_pos[OF B0 this] obtain z where
      z: "js_div (Fin B) (Fin (real (length cs) - 1)) = Fin z" "0 \<le> z" by auto
    have "js_div (Fin W) (Fin (real (length pixels) - real (length cs))) = (if W = 0 then NaN else PInf)"
      using kn js_div_by_zero[OF W(2)] by simp
    then show ?thesis unfolding res z using z(2) by (simp add: js_div_def js_signed_zero_def)
  qed
qed

text \<open>
  Claim C4, as amended: neither metric raises on a degenerate partition. With fewer than
  two centroids \<open>calculateDaviesBouldinIndex\<close> returns 0 (one centroid) or NaN (none);
  with valid labels on a non-empty image and \<open>k = 1\<close> or \<open>k = n\<close>,
  \<open>calculateCalinskiHarabaszIndex\<close> returns what its divisions by zero give: NaN,
  \<open>+Infinity\<close> or 0.
\<close>

theorem metrics_degenerate_return_numbers:
  "(length cs < 2 \<longrightarrow>
      calculateDaviesBouldinIndex cs clusters = Inr (if cs = [] then NaN else Fin 0)) \<and>
   (extract_pixels (data img) \<noteq> [] \<and> length labs = length (extract_pixels (data img)) \<and>
    (\<forall>l\<in>set labs. l < length cs') \<and>
    (length cs' = 1 \<or> length cs' = length (extract_pixels (data img))) \<longrightarrow>
      calculateCalinskiHarabaszIndex img cs' labs \<in> {Inr NaN, Inr PInf, Inr (Fin 0)})"
  using daviesBouldin_few_clusters calinskiHarabasz_degenerate by blast

theorem metrics_degenerate_return_numbers_witness:
  "length [(10, 10, 10) :: color] < 2 \<and>
   calculateDaviesBouldinIndex [(10, 10, 10)] [] = Inr (Fin 0) \<and>
   extract_pixels (data img2) \<noteq> [] \<and> length [0, 1 :: nat] = length (extract_pixels (data img2)) \<and>
   length [(10, 10, 10) :: color, (200, 10, 10)] = length (extract_pixels (data img2)) \<and>
   calculateCalinskiHarabaszIndex img2 [(10, 10, 10), (200, 10, 10)] [0, 1]
     \<in> {Inr NaN, Inr PInf, Inr (Fin 0)}"
  using metrics_degenerate_return_numbers[of "[(10, 10, 10)]" "[]" img2 "[0, 1]" "[(10, 10, 10), (200, 10, 10)]"]
  by (simp add: img2_def)

text \<open>
  Claim C4 as stated fails: with one centroid both metrics return a number, not an
  error.
\<close>

theorem metrics_insufficient_clusters_counterexample:
  "calculateDaviesBouldinIndex [(10, 10, 10)] [[(10, 10, 10)]] = Inr (Fin 0) \<and>
   calculateCalinskiHarabaszIndex img1 [(10, 10, 10)] [0] = Inr NaN"
  by (simp add: calculateDaviesBouldinIndex_def calculateCalinskiHarabaszIndex_def img1_def
      js_div_def js_add_def js_signed_zero_def between_ss_def overall_centroid_def Let_def)

section \<open>Properties of the nearest-centroid scan\<close>

lemma nearest_from_char:
  assumes "nearest_from p cs j (Some m, idx) = (r, idx')"
  shows "\<exists>m'. r = Some m' \<and> m' \<le> m \<and> (\<forall>t<length cs. m' \<le> euclideanDistance p (cs ! t)) \<and>
           ((idx' = idx \<and> m' = m) \<or>
            (j \<le> idx' \<and> idx' < j + length cs \<and> m' = euclideanDistance p (cs ! (idx' - j)) \<and>
             m' < m \<and> (\<forall>t<idx' - j. m' < euclideanDistance p (cs ! t))))"
  using assms
proof (induction cs arbitrary: j m idx)
  case Nil
  then have "r = Some m" "idx' = idx" by simp_all
  then show ?case by simp
next
  case (Cons c cs)
  define d where "d = euclideanDistance p c"
  show ?case
  proof (cases "d < m")
    case True
    with Cons.prems have "nearest_from p cs (Suc j) (Some d, j) = (r, idx')"
      by (simp add: d_def Let_def)
    from Cons.IH[OF this] obtain m' where m': "r = Some m'" "m' \<le> d"
      "\<forall>t<length cs. m' \<le> euclideanDistance p (cs ! t)"
      "(idx' = j \<and> m' = d) \<or>
            (Suc j \<le> idx' \<and> idx' < Suc j + length cs \<and> m' = euclideanDistance p (cs ! (idx' - Suc j)) \<and>
             m' < d \<and> (\<forall>t<idx' - Suc j. m' < euclideanDistance p (cs ! t)))"
      by blast
    have all: "\<forall>t<length (c # cs). m' \<le> euclideanDistance p ((c # cs) ! t)"
    proof (intro allI impI)
      fix t assume "t < length (c # cs)"
      then show "m' \<le> euclideanDistance p ((c # cs) ! t)"
        using m'(2,3) by (cases t) (simp_all add: d_def)
    qed
    have new: "j \<le> idx' \<and> idx' < j + length (c # cs) \<and>
             m' = euclideanDistance p ((c # cs) ! (idx' - j)) \<and>
             m' < m \<and> (\<forall>t<idx' - j. m' < euclideanDistance p ((c # cs) ! t))"
    proof (cases "idx' = j")
      case True
      with m'(4) have "m' = d" by auto
      then show ?thesis using True \<open>d < m\<close> by (simp add: d_def)
    next
      case False
      with m'(4) have h: "Suc j \<le> idx'" "idx' < Suc j + length cs"
        "m' = euclideanDistance p (cs ! (idx' - Suc j))" "m' < d"
        "\<forall>t<idx' - Suc j. m' < euclideanDistance p (cs ! t)" by auto
      have e: "idx' - j = Suc (idx' - Suc j)" using h(1) by simp
      have "\<forall>t<idx' - j. m' < euclideanDistance p ((c # cs) ! t)"
      proof (intro allI impI)
        fix t assume "t < idx' - j"
        then show "m' < euclideanDistance p ((c # cs) ! t)"
          using h(4,5) e by (cases t) (simp_all add: d_def)
      qed
      then show ?thesis using h \<open>d < m\<close> e by simp
    qed
    show ?thesis using m'(1,2) all new \<open>d < m\<close> by auto
  next
    case False
    with Cons.prems have "nearest_from p cs (Suc j) (Some m, idx) = (r, idx')"
      by (simp add: d_def Let_def)
    from Cons.IH[OF this] obtain m' where m': "r = Some m'" "m' \<le> m"
      "\<forall>t<length cs. m' \<le> euclideanDistance p (cs ! t)"
      "(idx' = idx \<and> m' = m) \<or>
            (Suc j \<le> idx' \<and> idx' < Suc j + length cs \<and> m' = euclideanDistance p (cs ! (idx' - Suc j)) \<and>
             m' < m \<and> (\<forall>t<idx' - Suc j. m' < euclideanDistance p (cs ! t)))"
      by blast
    have md: "m \<le> d" using False by simp
    have all: "\<forall>t<length (c # cs). m' \<le> euclideanDistance p ((c # cs) ! t)"
    proof (intro allI impI)
      fix t assume "t < length (c # cs)"
      then show "m' \<le> euclideanDistance p ((c # cs) ! t)"
        using m'(2,3) md by (cases t) (simp_all add: d_def)
    qed
    show ?thesis
    proof (cases "idx' = idx \<and> m' = m")
      case True
      then show ?thesis using m'(1,2) all by blast
    next
      case False
      with m'(4) have h: "Suc j \<le> idx'" "idx' < Suc j + length cs"
        "m' = euclideanDistance p (cs ! (idx' - Suc j))" "m' < m"
        "\<forall>t<idx' - Suc j. m' < euclideanDistance p (cs ! t)" by auto
      have e: "idx' - j = Suc (idx' - Suc j)" using h(1) by simp
      have "\<forall>t<idx' - j. m' < euclideanDistance p ((c # cs) ! t)"
      proof (intro allI impI)
        fix t assume "t < idx' - j"
        then show "m' < euclideanDistance p ((c # cs) ! t)"
          using h(4,5) e md by (cases t) (simp_all add: d_def)
      qed
      then have "j \<le> idx' \<and> idx' < j + length (c # cs) \<and>
             m' = euclideanDistance p ((c # cs) ! (idx' - j)) \<and>
             m' < m \<and> (\<forall>t<idx' - j. m' < euclideanDistance p ((c # cs) ! t))"
        using h e by simp
      then show ?thesis using m'(1,2) all by blast
    qed
  qed
qed

lemma nearest_Nil: "nearest [] p = 0"
  by (simp add: nearest_def)

text \<open>The scan returns the lowest index among the centroids at minimal distance.\<close>

lemma nearest_char:
  assumes "cs \<noteq> []"
  shows "nearest cs p < length cs \<and>
         (\<forall>t<length cs. euclideanDistance p (cs ! nearest cs p) \<le> euclideanDistance p (cs ! t)) \<and>
         (\<forall>t<nearest cs p. euclideanDistance p (cs ! nearest cs p) < euclideanDistance p (cs ! t))"
proof -
  obtain c rest where cs: "cs = c # rest" using assms by (cases cs) auto
  define d where "d = euclideanDistance p c"
  obtain r idx' where res: "nearest_from p rest 1 (Some d, 0) = (r, idx')"
    by (cases "nearest_from p rest 1 (Some d, 0)")
  have n: "nearest cs p = idx'" using res by (simp add: nearest_def cs d_def Let_def)
  from nearest_from_char[OF res] obtain m' where m': "r = Some m'" "m' \<le> d"
      "\<forall>t<length rest. m' \<le> euclideanDistance p (rest ! t)"
      "(idx' = 0 \<and> m' = d) \<or>
            (1 \<le> idx' \<and> idx' < 1 + length rest \<and> m' = euclideanDistance p (rest ! (idx' - 1)) \<and>
             m' < d \<and> (\<forall>t<idx' - 1. m' < euclideanDistance p (rest ! t)))"
    by blast
  have all: "\<forall>t<length cs. m' \<le> euclideanDistance p (cs ! t)"
  proof (intro allI impI)
    fix t assume "t < length cs"
    then show "m' \<le> euclideanDistance p (cs ! t)"
      using m'(2,3) by (cases t) (simp_all add: d_def cs)
  qed
  show ?thesis
  proof (cases "idx' = 0")
    case True
    with m'(4) have "m' = d" by auto
    then show ?thesis using all True unfolding n by (simp add: cs d_def)
  next
    case False
    with m'(4) have h: "1 \<le> idx'" "idx' < 1 + length rest"
      "m' = euclideanDistance p (rest ! (idx' - 1))" "m' < d"
      "\<forall>t<idx' - 1. m' < euclideanDistance p (rest ! t)" by auto
    obtain i where i: "idx' = Suc i" using h(1) by (cases idx') auto
    have at: "euclideanDistance p (cs ! idx') = m'" using h(3) i by (simp add: cs)
    have "\<forall>t<idx'. m' < euclideanDistance p (cs ! t)"
    proof (intro allI impI)
      fix t assume "t < idx'"
      then show "m' < euclideanDistance p (cs ! t)"
        using h(4,5) i by (cases t) (simp_all add: d_def cs)
    qed
    then show ?thesis using all h(2) unfolding n at by (simp add: cs)
  qed
qed

lemma nearest_less: "cs \<noteq> [] \<Longrightarrow> nearest cs p < length cs"
  using nearest_char by blast

lemma nearest_unique:
  assumes "r < length cs"
    and "\<forall>t<length cs. euclideanDistance p (cs ! r) \<le> euclideanDistance p (cs ! t)"
    and "\<forall>t<r. euclideanDistance p (cs ! r) < euclideanDistance p (cs ! t)"
  shows "nearest cs p = r"
proof -
  have ne: "cs \<noteq> []" using assms(1) by auto
  note c = nearest_char[OF ne, of p]
  show ?thesis
  proof (rule ccontr)
    assume neq: "nearest cs p \<noteq> r"
    show False
    proof (cases "nearest cs p < r")
      case True
      with assms(3) have "euclideanDistance p (cs ! r) < euclideanDistance p (cs ! nearest cs p)" by blast
      moreover from c assms(1) have "euclideanDistance p (cs ! nearest cs p) \<le> euclideanDistance p (cs ! r)" by blast
      ultimately show False by simp
    next
      case False
      with neq have "r < nearest cs p" by simp
      with c have "euclideanDistance p (cs ! nearest cs p) < euclideanDistance p (cs ! r)" by blast
      moreover from assms(2) c have "euclideanDistance p (cs ! r) \<le> euclideanDistance p (cs ! nearest cs p)" by blast
      ultimately show False by simp
    qed
  qed
qed

section \<open>Properties of the k-means pass (part 000)\<close>

lemma accumulate_Nil: "accumulate cs [] c j = c"
  by (simp add: accumulate_def)

lemma accumulate_Cons:
  "accumulate cs (p # ps) c j =
     (if nearest cs p = j
      then accumulate cs ps \<lparr>csum = add_color (csum c) p, ccount = Suc (ccount c)\<rparr> j
      else accumulate cs ps c j)"
  by (simp add: accumulate_def)

lemma assign_pixels_closed:
  assumes "cs \<noteq> []" "length cs \<le> length clusters" "i + length ps \<le> length labs"
  shows "assign_pixels cs ps i labs clusters ch =
     Inr (take i labs @ map (nearest cs) ps @ drop (i + length ps) labs,
          map (\<lambda>j. accumulate cs ps (clusters ! j) j) [0..<length clusters],
          ch \<or> (\<exists>t<length ps. labs ! (i + t) \<noteq> nearest cs (ps ! t)))"
  using assms
proof (induction ps arbitrary: i labs clusters ch)
  case Nil
  then show ?case by (simp add: accumulate_Nil map_nth)
next
  case (Cons p ps)
  define x where "x = nearest cs p"
  have xl: "x < length clusters"
    using nearest_less[OF Cons.prems(1), of p] Cons.prems(2) by (simp add: x_def)
  define cl where "cl = clusters[x := \<lparr>csum = add_color (csum (clusters ! x)) p,
                    ccount = Suc (ccount (clusters ! x))\<rparr>]"
  define ch1 where "ch1 = (if labs ! i \<noteq> x then True else ch)"
  have il: "i < length labs" using Cons.prems(3) by simp
  have step: "assign_pixels cs (p # ps) i labs clusters ch =
      assign_pixels cs ps (Suc i) (labs[i := x]) cl ch1"
    using xl by (simp add: Let_def x_def cl_def ch1_def)
  have ih: "assign_pixels cs ps (Suc i) (labs[i := x]) cl ch1 =
     Inr (take (Suc i) (labs[i := x]) @ map (nearest cs) ps @ drop (Suc i + length ps) (labs[i := x]),
          map (\<lambda>j. accumulate cs ps (cl ! j) j) [0..<length cl],
          ch1 \<or> (\<exists>t<length ps. (labs[i := x]) ! (Suc i + t) \<noteq> nearest cs (ps ! t)))"
    using Cons.prems by (intro Cons.IH) (simp_all add: cl_def)
  have a: "take (Suc i) (labs[i := x]) @ map (nearest cs) ps @ drop (Suc i + length ps) (labs[i := x])
      = take i labs @ map (nearest cs) (p # ps) @ drop (i + length (p # ps)) labs"
    using il by (simp add: take_Suc_conv_app_nth x_def)
  have b: "map (\<lambda>j. accumulate cs ps (cl ! j) j) [0..<length cl]
      = map (\<lambda>j. accumulate cs (p # ps) (clusters ! j) j) [0..<length clusters]"
  proof (rule nth_equalityI)
    show "length (map (\<lambda>j. accumulate cs ps (cl ! j) j) [0..<length cl]) =
          length (map (\<lambda>j. accumulate cs (p # ps) (clusters ! j) j) [0..<length clusters])"
      by (simp add: cl_def)
  next
    fix j assume "j < length (map (\<lambda>j. accumulate cs ps (cl ! j) j) [0..<length cl])"
    then have j: "j < length clusters" by (simp add: cl_def)
    show "map (\<lambda>j. accumulate cs ps (cl ! j) j) [0..<length cl] ! j =
          map (\<lambda>j. accumulate cs (p # ps) (clusters ! j) j) [0..<length clusters] ! j"
      using j by (simp add: cl_def accumulate_Cons x_def[symmetric] nth_list_update)
  qed
  have c: "(ch1 \<or> (\<exists>t<length ps. (labs[i := x]) ! (Suc i + t) \<noteq> nearest cs (ps ! t)))
      = (ch \<or> (\<exists>t<length (p # ps). labs ! (i + t) \<noteq> nearest cs ((p # ps) ! t)))"
  proof -
    have "(\<exists>t<length (p # ps). labs ! (i + t) \<noteq> nearest cs ((p # ps) ! t))
        = (labs ! i \<noteq> x \<or> (\<exists>t<length ps. labs ! (Suc i + t) \<noteq> nearest cs (ps ! t)))"
      by (simp add: length_Cons less_Suc_eq_0_disj x_def ex_disj_distrib) (auto simp: x_def)
    then show ?thesis by (auto simp: ch1_def)
  qed
  show ?case unfolding step ih a b c ..
qed

lemma foldl_add_color:
  "foldl add_color c ps =
     (fst c + sum_list (map fst ps),
      fst (snd c) + sum_list (map (\<lambda>p. fst (snd p)) ps),
      snd (snd c) + sum_list (map (\<lambda>p. snd (snd p)) ps))"
proof (induction ps arbitrary: c)
  case Nil
  show ?case by simp
next
  case (Cons p ps)
  obtain c0 c1 c2 where c: "c = (c0, c1, c2)" by (cases c)
  obtain p0 p1 p2 where p: "p = (p0, p1, p2)" by (cases p)
  show ?case by (simp add: Cons.IH c p)
qed

lemma members_of_map: "members_of ps (map f ps) j = filter (\<lambda>p. f p = j) ps"
  by (induction ps) (simp_all add: members_of_def)

lemma update_centroids_closed:
  "update_centroids rnd cs clusters ri =
     (map (\<lambda>j. if ccount (clusters ! j) > 0
                then div_color (csum (clusters ! j)) (real (ccount (clusters ! j)))
                else cs ! random_index (rnd (ri + empties_before clusters j)) (length cs))
          [0..<length clusters],
      ri + length (filter (\<lambda>c. ccount c = 0) clusters))"
proof (induction clusters arbitrary: ri)
  case Nil
  show ?case by simp
next
  case (Cons c rest)
  have up: "[0..<Suc (length rest)] = 0 # map Suc [0..<length rest]"
    by (simp add: upt_conv_Cons map_Suc_upt del: upt_Suc)
  show ?case
  proof (cases "ccount c > 0")
    case True
    then show ?thesis
      by (simp add: Cons.IH up empties_before_def comp_def del: upt_Suc)
  next
    case False
    then show ?thesis
      by (simp add: Cons.IH up empties_before_def comp_def del: upt_Suc)
  qed
qed

lemma lloyd_pass_closed:
  assumes "cs \<noteq> []" "k = int (length cs)" "length labs = length pixels"
  shows "lloyd_pass rnd pixels k labs cs ri =
     Inr (map (nearest cs) pixels \<noteq> labs, map (nearest cs) pixels,
          fst (update_centroids rnd cs (pass_clusters cs pixels) ri),
          snd (update_centroids rnd cs (pass_clusters cs pixels) ri))"
proof -
  have ch: "(\<exists>t<length pixels. labs ! (0 + t) \<noteq> nearest cs (pixels ! t))
      = (map (nearest cs) pixels \<noteq> labs)"
    using assms(3) by (auto simp: list_eq_iff_nth_eq)
  have "assign_pixels cs pixels 0 labs (replicate (nat k) \<lparr>csum = (0, 0, 0), ccount = 0\<rparr>) False =
     Inr (map (nearest cs) pixels, pass_clusters cs pixels, map (nearest cs) pixels \<noteq> labs)"
    using assms ch
    by (subst assign_pixels_closed) (simp_all add: pass_clusters_def)
  then show ?thesis using assms(2) by (simp add: lloyd_pass_def split_beta)
qed

lemma pass_clusters_nth:
  assumes "j < length cs"
  shows "csum (pass_clusters cs pixels ! j) =
           (sum_list (map fst (filter (\<lambda>p. nearest cs p = j) pixels)),
            sum_list (map (\<lambda>p. fst (snd p)) (filter (\<lambda>p. nearest cs p = j) pixels)),
            sum_list (map (\<lambda>p. snd (snd p)) (filter (\<lambda>p. nearest cs p = j) pixels)))"
    and "ccount (pass_clusters cs pixels ! j) = length (filter (\<lambda>p. nearest cs p = j) pixels)"
  using assms by (simp_all add: pass_clusters_def accumulate_def foldl_add_color)

lemma empties_before_less:
  assumes "j < length clusters" "ccount (clusters ! j) = 0"
  shows "empties_before clusters j < length (filter (\<lambda>c. ccount c = 0) clusters)"
proof -
  have "clusters = take j clusters @ clusters ! j # drop (Suc j) clusters"
    using assms(1) by (rule id_take_nth_drop)
  then have "length (filter (\<lambda>c. ccount c = 0) clusters) =
      length (filter (\<lambda>c. ccount c = 0) (take j clusters @ clusters ! j # drop (Suc j) clusters))"
    by simp
  also have "\<dots> = empties_before clusters j + 1 + length (filter (\<lambda>c. ccount c = 0) (drop (Suc j) clusters))"
    using assms(2) by (simp add: empties_before_def)
  finally show ?thesis by simp
qed

lemma random_index_interval:
  assumes "0 \<le> u" "0 < n"
  shows "random_index u n = r \<longleftrightarrow> real r / real n \<le> u \<and> u < real (r + 1) / real n"
proof -
  have nn: "0 \<le> u * real n" using assms by simp
  have "random_index u n = r \<longleftrightarrow> \<lfloor>u * real n\<rfloor> = int r"
    using nn by (auto simp: random_index_def)
  also have "\<dots> \<longleftrightarrow> real r \<le> u * real n \<and> u * real n < real r + 1"
    by (simp add: floor_eq_iff)
  also have "\<dots> \<longleftrightarrow> real r / real n \<le> u \<and> u < real (r + 1) / real n"
    using assms(2) by (simp add: pos_divide_le_eq pos_less_divide_eq add.commute)
  finally show ?thesis .
qed

lemma random_index_less:
  assumes "0 \<le> u" "u < 1" "0 < n"
  shows "random_index u n < n"
proof -
  have "u * real n < real n" using assms by simp
  then have "\<lfloor>u * real n\<rfloor> < int n" by (simp add: floor_less_iff)
  then show ?thesis using assms by (simp add: random_index_def nat_less_iff)
qed

lemma lloyd_pass_update:
  assumes pass: "lloyd_pass rnd pixels k labs cs ri = Inr (changed, labs', cs', ri')"
    and cs: "cs \<noteq> []" and k: "k = int (length cs)" and len: "length labs = length pixels"
  shows "labs' = map (nearest cs) pixels" "length cs' = length cs"
    and "\<forall>j<length cs.
          (members_of pixels labs' j = [] \<longrightarrow>
             (\<exists>d. ri \<le> d \<and> d < ri' \<and> cs' ! j = cs ! random_index (rnd d) (length cs))) \<and>
          (members_of pixels labs' j \<noteq> [] \<longrightarrow> cs' ! j = component_mean (members_of pixels labs' j))"
proof -
  note closed = lloyd_pass_closed[OF cs k len, of rnd ri]
  define cl where "cl = pass_clusters cs pixels"
  have l: "labs' = map (nearest cs) pixels" using pass closed by simp
  have c: "cs' = fst (update_centroids rnd cs cl ri)" using pass closed by (simp add: cl_def)
  have r: "ri' = snd (update_centroids rnd cs cl ri)" using pass closed by (simp add: cl_def)
  have lcl: "length cl = length cs" by (simp add: cl_def pass_clusters_def)
  show "labs' = map (nearest cs) pixels" by (rule l)
  show "length cs' = length cs" by (simp add: c update_centroids_closed lcl)
  show "\<forall>j<length cs.
          (members_of pixels labs' j = [] \<longrightarrow>
             (\<exists>d. ri \<le> d \<and> d < ri' \<and> cs' ! j = cs ! random_index (rnd d) (length cs))) \<and>
          (members_of pixels labs' j \<noteq> [] \<longrightarrow> cs' ! j = component_mean (members_of pixels labs' j))"
  proof (intro allI impI conjI)
    fix j assume j: "j < length cs"
    assume "members_of pixels labs' j = []"
    then have e: "ccount (cl ! j) = 0"
      using pass_clusters_nth(2)[OF j, of pixels] by (simp add: l members_of_map cl_def)
    have "cs' ! j = cs ! random_index (rnd (ri + empties_before cl j)) (length cs)"
      using j e by (simp add: c update_centroids_closed lcl)
    moreover have "ri + empties_before cl j < ri'"
      using empties_before_less[of j cl] j e lcl by (simp add: r update_centroids_closed)
    ultimately show "\<exists>d. ri \<le> d \<and> d < ri' \<and> cs' ! j = cs ! random_index (rnd d) (length cs)"
      by (intro exI[of _ "ri + empties_before cl j"]) simp
  next
    fix j assume j: "j < length cs"
    define ms where "ms = filter (\<lambda>p. nearest cs p = j) pixels"
    assume "members_of pixels labs' j \<noteq> []"
    then have ne: "ms \<noteq> []" by (simp add: l members_of_map ms_def)
    have cnt: "ccount (cl ! j) = length ms"
      using pass_clusters_nth(2)[OF j, of pixels] by (simp add: cl_def ms_def)
    have sm: "csum (cl ! j) = (sum_list (map fst ms), sum_list (map (\<lambda>p. fst (snd p)) ms),
            sum_list (map (\<lambda>p. snd (snd p)) ms))"
      using pass_clusters_nth(1)[OF j, of pixels] by (simp add: cl_def ms_def)
    have "cs' ! j = div_color (csum (cl ! j)) (real (ccount (cl ! j)))"
      using j ne cnt by (simp add: c update_centroids_closed lcl)
    also have "\<dots> = component_mean ms" by (simp add: sm cnt component_mean_def)
    finally show "cs' ! j = component_mean (members_of pixels labs' j)"
      by (simp add: l members_of_map ms_def)
  qed
qed

text \<open>
  Claim C6: in a pass of the k-means++ variant over \<open>k\<close> centroids, the centroid of a
  cluster that received no pixel becomes \<open>centroids[Math.floor(Math.random() * k)]\<close> for a
  random number drawn in this pass, an element of the centroids of the pass and not a
  pixel; the index \<open>r\<close> is chosen exactly when the draw lies in \<open>[r/k, (r+1)/k)\<close>, so
  every current centroid is as likely as any other. The centroid of a cluster with at
  least one member becomes the component-wise mean of its members.
\<close>

theorem empty_clusters_reseeded_from_centroids:
  assumes "lloyd_pass rnd pixels k labs cs ri = Inr (changed, labs', cs', ri')"
    and "cs \<noteq> []" and "k = int (length cs)" and "length labs = length pixels"
  shows "length cs' = length cs \<and>
     (\<forall>j<length cs.
          (members_of pixels labs' j = [] \<longrightarrow>
             (\<exists>d. ri \<le> d \<and> d < ri' \<and> cs' ! j = cs ! random_index (rnd d) (length cs))) \<and>
          (members_of pixels labs' j \<noteq> [] \<longrightarrow> cs' ! j = component_mean (members_of pixels labs' j))) \<and>
     (\<forall>u r. 0 \<le> u \<and> u < 1 \<longrightarrow>
          random_index u (length cs) < length cs \<and>
          (random_index u (length cs) = r \<longleftrightarrow>
             real r / real (length cs) \<le> u \<and> u < real (r + 1) / real (length cs)))"
proof -
  have pos: "0 < length cs" using assms(2) by simp
  show ?thesis
    using lloyd_pass_update(2,3)[OF assms] random_index_interval[OF _ pos] random_index_less[OF _ _ pos]
    by blast
qed

lemma sample_pass:
  "lloyd_pass (\<lambda>_. 0) [(0, 0, 0), (1, 0, 0)] 2 [0, 0] [(0, 0, 0), (0, 0, 0)] 0
     = Inr (False, [0, 0], [(1/2, 0, 0), (0, 0, 0)], 1)"
  by (simp add: lloyd_pass_def nearest_def Let_def numeral_2_eq_2 random_index_def)

text \<open>The witness of C6: two pixels, two equal centroids; the second cluster stays
  empty and is reseeded with the first centroid.\<close>

theorem empty_clusters_reseeded_from_centroids_witness:
  "lloyd_pass (\<lambda>_. 0) [(0, 0, 0), (1, 0, 0)] 2 [0, 0] [(0, 0, 0), (0, 0, 0)] 0
     = Inr (False, [0, 0], [(1/2, 0, 0), (0, 0, 0)], 1) \<and>
   [(0, 0, 0), (0, 0, 0) :: color] \<noteq> [] \<and> (2 :: int) = int (length [(0, 0, 0), (0, 0, 0) :: color]) \<and>
   length [0, 0 :: nat] = length [(0, 0, 0), (1, 0, 0) :: color] \<and>
   members_of [(0, 0, 0), (1, 0, 0)] [0, 0] 1 = [] \<and>
   (\<exists>d::nat. 0 \<le> d \<and> d < 1 \<and>
      [(1/2, 0, 0), (0, 0, 0)] ! 1 =
        [(0, 0, 0), (0, 0, 0) :: color] ! random_index ((\<lambda>_. 0) d) (length [(0, 0, 0), (0, 0, 0) :: color])) \<and>
   members_of [(0, 0, 0), (1, 0, 0)] [0, 0] 0 = [(0, 0, 0), (1, 0, 0)] \<and>
   [(1/2, 0, 0), (0, 0, 0)] ! 0 = component_mean (members_of [(0, 0, 0), (1, 0, 0)] [0, 0] 0) \<and>
   (random_index (3/4) (length [(0, 0, 0), (0, 0, 0) :: color]) = 1 \<longleftrightarrow>
      real 1 / real (length [(0, 0, 0), (0, 0, 0) :: color]) \<le> 3/4 \<and>
      (3/4 :: real) < real (1 + 1) / real (length [(0, 0, 0), (0, 0, 0) :: color]))"
proof -
  have h2: "[(0, 0, 0), (0, 0, 0) :: color] \<noteq> []" by simp
  have h3: "(2 :: int) = int (length [(0, 0, 0), (0, 0, 0) :: color])" by simp
  have h4: "length [0, 0 :: nat] = length [(0, 0, 0), (1, 0, 0) :: color]" by simp
  note inst = empty_clusters_reseeded_from_centroids[OF sample_pass h2 h3 h4]
  have m1: "members_of [(0, 0, 0), (1, 0, 0)] [0, 0] 1 = []"
    and m0: "members_of [(0, 0, 0), (1, 0, 0)] [0, 0] 0 = [(0, 0, 0), (1, 0, 0)]"
    by (simp_all add: members_of_def)
  have j1: "(1::nat) < length [(0, 0, 0), (0, 0, 0) :: color]"
    and j0: "(0::nat) < length [(0, 0, 0), (0, 0, 0) :: color]" by simp_all
  note B1 = inst[THEN conjunct2, THEN conjunct1, rule_format, OF j1]
  note B0 = inst[THEN conjunct2, THEN conjunct1, rule_format, OF j0]
  have a: "\<exists>d::nat. 0 \<le> d \<and> d < 1 \<and>
      [(1/2, 0, 0), (0, 0, 0)] ! 1 =
        [(0, 0, 0), (0, 0, 0) :: color] ! random_index ((\<lambda>_. 0) d) (length [(0, 0, 0), (0, 0, 0) :: color])"
    using B1[THEN conjunct1, rule_format, OF m1] by simp
  have ne: "members_of [(0, 0, 0), (1, 0, 0)] [0, 0] 0 \<noteq> []" by (simp add: m0)
  have b: "[(1/2, 0, 0), (0, 0, 0)] ! 0 =
      component_mean (members_of [(0, 0, 0), (1, 0, 0)] [0, 0] 0)"
    using B0[THEN conjunct2, rule_format, OF ne] by simp
  have u: "(0::real) \<le> 3/4 \<and> (3/4::real) < 1" by simp
  have c: "(random_index (3/4) (length [(0, 0, 0), (0, 0, 0) :: color]) = 1 \<longleftrightarrow>
      real 1 / real (length [(0, 0, 0), (0, 0, 0) :: color]) \<le> 3/4 \<and>
      (3/4 :: real) < real (1 + 1) / real (length [(0, 0, 0), (0, 0, 0) :: color]))"
    using inst[THEN conjunct2, THEN conjunct2, rule_format, OF u, THEN conjunct2, of 1] by simp
  show ?thesis by (intro conjI sample_pass h2 h3 h4 m1 m0 a b c)
qed

section \<open>Termination and shape of the results of k-means (part 000)\<close>

lemma euclideanDistance_nonneg: "0 \<le> euclideanDistance p c"
  by (cases p; cases c) simp

lemma fold_min_nonneg:
  fixes d :: real
  assumes "0 \<le> d" "\<forall>x\<in>set ds. 0 \<le> x"
  shows "0 \<le> fold min ds d"
  using assms by (induction ds arbitrary: d) simp_all

lemma min_distance_nonneg:
  assumes "cs \<noteq> []"
  shows "0 \<le> min_distance cs p"
proof -
  obtain c rest where cs: "cs = c # rest" using assms by (cases cs) auto
  show ?thesis
    unfolding min_distance_def cs
    by (simp add: fold_min_nonneg euclideanDistance_nonneg)
qed

lemma foldl_plus_sum_list:
  fixes a :: real
  shows "foldl (+) a xs = a + sum_list xs"
  by (induction xs arbitrary: a) simp_all

lemma pick_cumulative_Some:
  assumes "threshold \<le> cumulative + sum_list ds" "ds \<noteq> []"
  shows "\<exists>i. pick_cumulative threshold ds cumulative i0 = Some i \<and> i0 \<le> i \<and> i < i0 + length ds"
  using assms
proof (induction ds arbitrary: cumulative i0)
  case Nil
  then show ?case by simp
next
  case (Cons d ds)
  show ?case
  proof (cases "threshold \<le> cumulative + d")
    case True
    then show ?thesis by simp
  next
    case False
    with Cons.prems(1) have ne: "ds \<noteq> []" by auto
    have "threshold \<le> (cumulative + d) + sum_list ds" using Cons.prems(1) by simp
    from Cons.IH[OF this ne, of "Suc i0"] False show ?thesis by auto
  qed
qed

lemma kmeanspp_loop_total:
  assumes rnd: "valid_rnd rnd" and px: "pixels \<noteq> []" and cs: "cs \<noteq> []"
  shows "\<exists>cs' ri'. kmeanspp_loop rnd pixels k cs ri = Some (cs', ri') \<and>
           int (length cs') = max k (int (length cs)) \<and> ri \<le> ri'"
  using cs
proof (induction "nat (k - int (length cs))" arbitrary: cs ri)
  case 0
  then have "\<not> int (length cs) < k" by simp
  then show ?case by (subst kmeanspp_loop.simps) simp
next
  case (Suc m)
  then have lt: "int (length cs) < k" by simp
  define distances where "distances = map (min_distance cs) pixels"
  define total where "total = foldl (+) 0 distances"
  have nn: "\<forall>x\<in>set distances. 0 \<le> x"
    using min_distance_nonneg[OF Suc.prems] by (simp add: distances_def)
  have tot: "total = sum_list distances" by (simp add: total_def foldl_plus_sum_list)
  have t0: "0 \<le> total" unfolding tot using nn by (simp add: sum_list_nonneg)
  have u: "0 \<le> rnd ri" "rnd ri < 1" using rnd by (simp_all add: valid_rnd_def)
  have "rnd ri * total \<le> 1 * total" using u t0 by (intro mult_right_mono) simp_all
  then have th: "rnd ri * total \<le> 0 + sum_list distances" by (simp add: tot)
  have dne: "distances \<noteq> []" using px by (simp add: distances_def)
  from pick_cumulative_Some[OF th dne, of 0] obtain i where
    i: "pick_cumulative (rnd ri * total) distances 0 0 = Some i" by auto
  have step: "kmeanspp_loop rnd pixels k cs ri = kmeanspp_loop rnd pixels k (cs @ [pixels ! i]) (Suc ri)"
    using lt i by (subst kmeanspp_loop.simps) (simp add: Let_def distances_def total_def)
  have m: "m = nat (k - int (length (cs @ [pixels ! i])))" using Suc.hyps(2) by simp
  have ne: "cs @ [pixels ! i] \<noteq> []" by simp
  from Suc.hyps(1)[OF m ne, of "Suc ri"] obtain cs' ri' where
    r: "kmeanspp_loop rnd pixels k (cs @ [pixels ! i]) (Suc ri) = Some (cs', ri')"
       "int (length cs') = max k (int (length (cs @ [pixels ! i])))" "Suc ri \<le> ri'"
    by blast
  show ?case using r lt unfolding step by auto
qed

lemma pass_labels_less:
  assumes "cs \<noteq> []"
  shows "\<forall>l\<in>set (map (nearest cs) pixels). l < length cs"
  using nearest_less[OF assms] by simp

lemma lloyd_loop_total:
  assumes "cs \<noteq> []" "k = int (length cs)" "length labs = length pixels" "iterations \<le> 100"
  shows "\<exists>labs' cs' its ps. lloyd_loop rnd pixels k iterations passes labs cs ri =
            Inr (labs', cs', its, ps) \<and>
          length cs' = length cs \<and> length labs' = length pixels \<and>
          (\<forall>l\<in>set labs'. l < length cs) \<and> passes < ps \<and> ps \<le> passes + (101 - iterations)"
  using assms
proof (induction "100 - iterations" arbitrary: iterations passes labs cs ri)
  case 0
  define labs' where "labs' = map (nearest cs) pixels"
  define cs' where "cs' = fst (update_centroids rnd cs (pass_clusters cs pixels) ri)"
  define ri' where "ri' = snd (update_centroids rnd cs (pass_clusters cs pixels) ri)"
  have pass: "lloyd_pass rnd pixels k labs cs ri = Inr (labs' \<noteq> labs, labs', cs', ri')"
    using lloyd_pass_closed[OF "0.prems"(1-3)] by (simp add: labs'_def cs'_def ri'_def)
  have lc: "length cs' = length cs"
    by (simp add: cs'_def update_centroids_closed pass_clusters_def)
  have ll: "length labs' = length pixels" by (simp add: labs'_def)
  have lt: "\<forall>l\<in>set labs'. l < length cs" unfolding labs'_def by (rule pass_labels_less[OF "0.prems"(1)])
  have ge: "\<not> iterations < 100" "iterations = 100" using "0.hyps" "0.prems"(4) by simp_all
  show ?case
    using lc ll lt ge "0.prems"(3)
    by (subst lloyd_loop.simps) (simp add: pass)
next
  case (Suc m)
  define labs' where "labs' = map (nearest cs) pixels"
  define cs' where "cs' = fst (update_centroids rnd cs (pass_clusters cs pixels) ri)"
  define ri' where "ri' = snd (update_centroids rnd cs (pass_clusters cs pixels) ri)"
  have pass: "lloyd_pass rnd pixels k labs cs ri = Inr (labs' \<noteq> labs, labs', cs', ri')"
    using lloyd_pass_closed[OF Suc.prems(1-3)] by (simp add: labs'_def cs'_def ri'_def)
  have lc: "length cs' = length cs"
    by (simp add: cs'_def update_centroids_closed pass_clusters_def)
  have ll: "length labs' = length pixels" by (simp add: labs'_def)
  have lt: "\<forall>l\<in>set labs'. l < length cs" unfolding labs'_def by (rule pass_labels_less[OF Suc.prems(1)])
  have it: "iterations < 100" using Suc.hyps(2) by simp
  show ?case
  proof (cases "labs' \<noteq> labs")
    case False
    then show ?thesis using lc ll lt it by (subst lloyd_loop.simps) (simp add: pass)
  next
    case True
    have step: "lloyd_loop rnd pixels k iterations passes labs cs ri =
        lloyd_loop rnd pixels k (Suc iterations) (Suc passes) labs' cs' ri'"
      using True it by (subst lloyd_loop.simps) (simp add: pass)
    have m: "m = 100 - Suc iterations" using Suc.hyps(2) by simp
    have ne: "cs' \<noteq> []" using lc Suc.prems(1) by auto
    have k': "k = int (length cs')" using lc Suc.prems(2) by simp
    have it': "Suc iterations \<le> 100" using it by simp
    from Suc.hyps(1)[OF m ne k' ll it', of "Suc passes" ri'] obtain labs'' cs'' its ps where
      r: "lloyd_loop rnd pixels k (Suc iterations) (Suc passes) labs' cs' ri' = Inr (labs'', cs'', its, ps)"
         "length cs'' = length cs'" "length labs'' = length pixels"
         "\<forall>l\<in>set labs''. l < length cs'" "Suc passes < ps" "ps \<le> Suc passes + (101 - Suc iterations)"
      by blast
    show ?thesis using r lc it unfolding step by auto
  qed
qed

lemma kMeans_cluster_total:
  assumes rnd: "valid_rnd rnd" and px: "pixels \<noteq> []" and k: "1 \<le> k"
  shows "\<exists>labs cs its ps. kMeans_cluster rnd pixels k = Some (Inr (labs, cs, its, ps)) \<and>
          int (length cs) = k \<and> length labs = length pixels \<and>
          (\<forall>l\<in>set labs. int l < k) \<and> 1 \<le> ps \<and> ps \<le> 101"
proof -
  define first where "first = pixels ! random_index (rnd 0) (length pixels)"
  have ne: "[first] \<noteq> []" by simp
  from kmeanspp_loop_total[OF rnd px ne, of k 1] obtain cs0 ri0 where
    s: "kmeanspp_loop rnd pixels k [first] 1 = Some (cs0, ri0)"
       "int (length cs0) = max k (int (length [first]))"
    by blast
  have l0: "int (length cs0) = k" using s(2) k by simp
  then have ne0: "cs0 \<noteq> []" using k by auto
  have ll: "length (replicate (length pixels) (0::nat)) = length pixels" by simp
  have z: "(0::nat) \<le> 100" by simp
  from lloyd_loop_total[OF ne0 l0[symmetric] ll z, of rnd 0 ri0] obtain labs cs its ps where
    r: "lloyd_loop rnd pixels k 0 0 (replicate (length pixels) 0) cs0 ri0 = Inr (labs, cs, its, ps)"
       "length cs = length cs0" "length labs = length pixels"
       "\<forall>l\<in>set labs. l < length cs0" "0 < ps" "ps \<le> 0 + (101 - 0)"
    by blast
  have "kMeans_cluster rnd pixels k = Some (Inr (labs, cs, its, ps))"
    using s(1) r(1) by (simp add: kMeans_cluster_def first_def)
  moreover have "\<forall>l\<in>set labs. int l < k" using r(4) l0 by auto
  ultimately show ?thesis using r(2,3,5,6) l0 by auto
qed

section \<open>Shape of the results of k-means (part 001)\<close>

lemma assign_clusters_closed:
  assumes "cs \<noteq> []" "length cs \<le> length clusters"
  shows "\<exists>clusters'. assign_clusters cs ps clusters labs = Inr (clusters', labs @ map (nearest cs) ps) \<and>
           length clusters' = length clusters"
  using assms
proof (induction ps arbitrary: clusters labs)
  case Nil
  then show ?case by simp
next
  case (Cons p ps)
  define x where "x = nearest cs p"
  have xl: "x < length clusters"
    using nearest_less[OF Cons.prems(1), of p] Cons.prems(2) by (simp add: x_def)
  define cl where "cl = clusters[x := clusters ! x @ [p]]"
  have l: "length cs \<le> length cl" using Cons.prems(2) by (simp add: cl_def)
  from Cons.IH[OF Cons.prems(1) l, of "labs @ [x]"] obtain clusters' where
    r: "assign_clusters cs ps cl (labs @ [x]) = Inr (clusters', (labs @ [x]) @ map (nearest cs) ps)"
       "length clusters' = length cl" by blast
  show ?case using r xl by (simp add: Let_def x_def[symmetric] cl_def[symmetric]) (simp add: cl_def)
qed

lemma fold_update_length:
  "length (fold (\<lambda>j cs. if P j then cs[j := f j] else cs) js cs) = length cs"
  by (induction js arbitrary: cs) simp_all

lemma update_nonempty_length: "length (update_nonempty clusters cs) = length cs"
  unfolding update_nonempty_def by (rule fold_update_length)

lemma kmeans_iteration_closed:
  assumes "cs \<noteq> []" "k = int (length cs)"
  shows "\<exists>cs'. kmeans_iteration pixels k cs = Inr (cs', map (nearest cs) pixels) \<and>
           length cs' = length cs"
proof -
  have "length cs \<le> length (replicate (nat k) ([] :: color list))" using assms(2) by simp
  from assign_clusters_closed[OF assms(1) this, of pixels "[]"] obtain clusters' where
    "assign_clusters cs pixels (replicate (nat k) []) [] = Inr (clusters', [] @ map (nearest cs) pixels)"
    by blast
  then show ?thesis using assms(2) by (simp add: kmeans_iteration_def update_nonempty_length)
qed

lemma kmeans_iterations_closed:
  assumes "cs \<noteq> []" "k = int (length cs)" "0 < m"
  shows "\<exists>cs' labs'. kmeans_iterations m pixels k cs labs = Inr (cs', labs') \<and>
           length cs' = length cs \<and> length labs' = length pixels \<and>
           (\<forall>l\<in>set labs'. l < length cs)"
  using assms
proof (induction m arbitrary: cs labs)
  case 0
  then show ?case by simp
next
  case (Suc m)
  from kmeans_iteration_closed[OF Suc.prems(1,2), of pixels] obtain cs1 where
    it: "kmeans_iteration pixels k cs = Inr (cs1, map (nearest cs) pixels)" "length cs1 = length cs"
    by blast
  show ?case
  proof (cases m)
    case 0
    then show ?thesis using it pass_labels_less[OF Suc.prems(1), of pixels] by simp
  next
    case (Suc m')
    have ne: "cs1 \<noteq> []" using it(2) Suc.prems(1) by auto
    have k1: "k = int (length cs1)" using it(2) Suc.prems(2) by simp
    have "0 < m" using Suc by simp
    from Suc.IH[OF ne k1 this, of "map (nearest cs) pixels"] show ?thesis using it by simp
  qed
qed

lemma extract_pixels_length: "length (extract_pixels d) = length d div 4"
  by (induction d rule: extract_pixels.induct) simp_all

lemma wf_image_pixels:
  assumes "wf_image img"
  shows "extract_pixels (data img) \<noteq> []" "length (extract_pixels (data img)) = width img * height img"
proof -
  have l: "length (extract_pixels (data img)) = width img * height img"
    using assms by (simp add: wf_image_def extract_pixels_length)
  show "length (extract_pixels (data img)) = width img * height img" by (rule l)
  have "0 < width img * height img" using assms by (simp add: wf_image_def)
  with l show "extract_pixels (data img) \<noteq> []" by auto
qed

lemma kMeansSegmentation_part000_result:
  assumes "valid_rnd rnd" "wf_image (H ! inp)" "1 \<le> k"
  shows "\<exists>H' res. kMeansSegmentation_part000 rnd H inp k = Some (H', Inr res) \<and>
           length (labels res) = length (extract_pixels (data (H ! inp))) \<and>
           int (length (centroids res)) = k \<and> (\<forall>l\<in>set (labels res). int l < k)"
proof -
  define pixels where "pixels = extract_pixels (data (H ! inp))"
  have px: "pixels \<noteq> []" using wf_image_pixels(1)[OF assms(2)] by (simp add: pixels_def)
  from kMeans_cluster_total[OF assms(1) px assms(3)] obtain labs cs its ps where
    r: "kMeans_cluster rnd pixels k = Some (Inr (labs, cs, its, ps))"
       "int (length cs) = k" "length labs = length pixels" "\<forall>l\<in>set labs. int l < k"
    by blast
  show ?thesis
    using r by (simp add: kMeansSegmentation_part000_def Let_def split_beta pixels_def[symmetric])
qed

lemma random_centroids_length: "length (random_centroids rnd k) = nat k"
  by (simp add: random_centroids_def)

lemma kMeansSegmentation_part001_result:
  assumes "1 \<le> k"
  shows "\<exists>H' res. kMeansSegmentation_part001 rnd H inp k = (H', Inr res) \<and>
           length (labels res) = length (extract_pixels (data (H ! inp))) \<and>
           int (length (centroids res)) = k \<and> (\<forall>l\<in>set (labels res). int l < k)"
proof -
  define pixels where "pixels = extract_pixels (data (H ! inp))"
  define cs0 where "cs0 = random_centroids rnd k"
  have l0: "length cs0 = nat k" by (simp add: cs0_def random_centroids_length)
  have ne: "cs0 \<noteq> []" using l0 assms by auto
  have k0: "k = int (length cs0)" using l0 assms by simp
  have "(0::nat) < 15" by simp
  from kmeans_iterations_closed[OF ne k0 this, of pixels "[]"] obtain cs labs where
    r: "kmeans_iterations 15 pixels k cs0 [] = Inr (cs, labs)" "length cs = length cs0"
       "length labs = length pixels" "\<forall>l\<in>set labs. l < length cs0"
    by blast
  have "\<forall>l\<in>set labs. int l < k" using r(4) l0 by auto
  then show ?thesis
    using r(1,2,3) l0 assms
    by (simp add: kMeansSegmentation_part001_def Let_def split_beta pixels_def[symmetric] cs0_def[symmetric])
qed

text \<open>
  Claim C7: on a well-formed (hence non-empty) image, with random numbers in \<open>[0, 1)\<close>
  and \<open>k \<ge> 1\<close>, both implementations of \<open>kMeansSegmentation\<close> return a result with
  one label per pixel, \<open>k\<close> centroids and every label below \<open>k\<close>. The bound
  \<open>k \<le> n\<close> of the claim is not needed.
\<close>

theorem kMeans_labels_below_k:
  assumes "valid_rnd rnd" "wf_image (H ! inp)" "1 \<le> k"
  shows "(\<exists>H' res. kMeansSegmentation_part000 rnd H inp k = Some (H', Inr res) \<and>
           length (labels res) = length (extract_pixels (data (H ! inp))) \<and>
           int (length (centroids res)) = k \<and> (\<forall>l\<in>set (labels res). int l < k)) \<and>
         (\<exists>H' res. kMeansSegmentation_part001 rnd H inp k = (H', Inr res) \<and>
           length (labels res) = length (extract_pixels (data (H ! inp))) \<and>
           int (length (centroids res)) = k \<and> (\<forall>l\<in>set (labels res). int l < k))"
  using kMeansSegmentation_part000_result[OF assms] kMeansSegmentation_part001_result[OF assms(3)]
  by blast

lemma replicate_numeral: "replicate (numeral k) x = x # replicate (pred_numeral k) x"
  by (simp add: numeral_eq_Suc)

lemma list_update_numeral: "(x # xs)[numeral k := v] = x # xs[pred_numeral k := v]"
  by (simp add: numeral_eq_Suc)

lemma valid_rnd_zero: "valid_rnd (\<lambda>_. 0)"
  by (simp add: valid_rnd_def)

lemma wf_img1: "wf_image img1" and wf_img2: "wf_image img2"
  by (simp_all add: wf_image_def img1_def img2_def)

theorem kMeans_labels_below_k_witness:
  "valid_rnd (\<lambda>_. 0) \<and> wf_image ([img2] ! 0) \<and> (1::int) \<le> 2 \<and>
   (\<exists>H' res. kMeansSegmentation_part000 (\<lambda>_. 0) [img2] 0 2 = Some (H', Inr res) \<and>
           length (labels res) = length (extract_pixels (data ([img2] ! 0))) \<and>
           int (length (centroids res)) = 2 \<and> (\<forall>l\<in>set (labels res). int l < 2)) \<and>
   (\<exists>H' res. kMeansSegmentation_part001 (\<lambda>_. 0) [img2] 0 2 = (H', Inr res) \<and>
           length (labels res) = length (extract_pixels (data ([img2] ! 0))) \<and>
           int (length (centroids res)) = 2 \<and> (\<forall>l\<in>set (labels res). int l < 2))"
proof -
  have w: "wf_image ([img2] ! 0)" by (simp add: wf_img2)
  have k: "(1::int) \<le> 2" by simp
  from kMeans_labels_below_k[OF valid_rnd_zero w k] show ?thesis
    using valid_rnd_zero w k by blast
qed

section \<open>k-means (part 000) outside the precondition on k\<close>

lemma kMeans_cluster_one_pixel:
  "kMeans_cluster (\<lambda>_. 0) [(10, 10, 10)] 2 = Some (Inr ([0], [(10, 10, 10), (10, 10, 10)], 0, 1))"
  by (simp add: kMeans_cluster_def kmeanspp_loop.simps lloyd_loop.simps lloyd_pass_def
      min_distance_def random_index_def nearest_def Let_def numeral_2_eq_2)

text \<open>
  Claim C5 as stated fails: on a one-pixel image and \<open>k = 2\<close> the function returns a
  result, with the second centroid a copy of the first.
\<close>

theorem kMeans_k_above_pixel_count_counterexample:
  "kMeansSegmentation_part000 (\<lambda>_. 0) [img1] 0 2 =
     Some ([img1, \<lparr>width = 1, height = 1, data = [10, 10, 10, 255]\<rparr>],
           Inr \<lparr>imageData = 1, labels = [0], centroids = [(10, 10, 10), (10, 10, 10)]\<rparr>)"
  by (simp add: kMeansSegmentation_part000_def img1_def kMeans_cluster_one_pixel new_ImageData_def
      recolor_def write_pixel_def set_byte_def toUint8Clamp_def round_half_even_def
      replicate_numeral list_update_numeral Let_def)

lemma kMeans_cluster_zero:
  assumes "pixels \<noteq> []"
  shows "kMeans_cluster rnd pixels 0 = Some (Inl TypeError)"
proof -
  obtain p ps where px: "pixels = p # ps" using assms by (cases pixels) auto
  define first where "first = pixels ! random_index (rnd 0) (length pixels)"
  have s: "kmeanspp_loop rnd pixels 0 [first] 1 = Some ([first], 1)"
    by (subst kmeanspp_loop.simps) simp
  have "lloyd_pass rnd pixels 0 (replicate (length pixels) 0) [first] 1 = Inl TypeError"
    by (simp add: lloyd_pass_def px Let_def)
  then have "lloyd_loop rnd pixels 0 0 0 (replicate (length pixels) 0) [first] 1 = Inl TypeError"
    by (subst lloyd_loop.simps) simp
  then show ?thesis using s by (simp add: kMeans_cluster_def first_def)
qed

lemma kMeans_cluster_negative:
  assumes "k < 0"
  shows "kMeans_cluster rnd pixels k = Some (Inl RangeError)"
proof -
  define first where "first = pixels ! random_index (rnd 0) (length pixels)"
  have s: "kmeanspp_loop rnd pixels k [first] 1 = Some ([first], 1)"
    using assms by (subst kmeanspp_loop.simps) simp
  have "lloyd_pass rnd pixels k (replicate (length pixels) 0) [first] 1 = Inl RangeError"
    using assms by (simp add: lloyd_pass_def)
  then have "lloyd_loop rnd pixels k 0 0 (replicate (length pixels) 0) [first] 1 = Inl RangeError"
    by (subst lloyd_loop.simps) simp
  then show ?thesis using s by (simp add: kMeans_cluster_def first_def)
qed

text \<open>
  Claim C5, as amended: \<open>kMeansSegmentation\<close> (part 000) does not compare \<open>k\<close> with
  the number of pixels. On a well-formed image, with random numbers in \<open>[0, 1)\<close>, it
  returns a result with \<open>k\<close> centroids for every \<open>k \<ge> 1\<close>, also when \<open>k\<close> exceeds
  the number of pixels; for \<open>k = 0\<close> it fails with the runtime's \<open>TypeError\<close> and for
  \<open>k < 0\<close> with its \<open>RangeError\<close>.
\<close>

theorem kMeans_accepts_every_positive_k:
  assumes "valid_rnd rnd" "wf_image (H ! inp)"
  shows "(1 \<le> k \<longrightarrow>
            (\<exists>H' res. kMeansSegmentation_part000 rnd H inp k = Some (H', Inr res) \<and>
               int (length (centroids res)) = k \<and>
               length (labels res) = length (extract_pixels (data (H ! inp))))) \<and>
         (k = 0 \<longrightarrow> (\<exists>H'. kMeansSegmentation_part000 rnd H inp k = Some (H', Inl TypeError))) \<and>
         (k < 0 \<longrightarrow> (\<exists>H'. kMeansSegmentation_part000 rnd H inp k = Some (H', Inl RangeError)))"
proof (intro conjI impI)
  assume "1 \<le> k"
  from kMeansSegmentation_part000_result[OF assms this]
  show "\<exists>H' res. kMeansSegmentation_part000 rnd H inp k = Some (H', Inr res) \<and>
               int (length (centroids res)) = k \<and>
               length (labels res) = length (extract_pixels (data (H ! inp)))"
    by blast
next
  assume "k = 0"
  then show "\<exists>H'. kMeansSegmentation_part000 rnd H inp k = Some (H', Inl TypeError)"
    using kMeans_cluster_zero[OF wf_image_pixels(1)[OF assms(2)], of rnd]
    by (simp add: kMeansSegmentation_part000_def Let_def split_beta)
next
  assume "k < 0"
  then show "\<exists>H'. kMeansSegmentation_part000 rnd H inp k = Some (H', Inl RangeError)"
    using kMeans_cluster_negative[of k rnd]
    by (simp add: kMeansSegmentation_part000_def Let_def split_beta)
qed

theorem kMeans_accepts_every_positive_k_witness:
  "valid_rnd (\<lambda>_. 0) \<and> wf_image ([img1] ! 0) \<and> (1::int) \<le> 2 \<and>
   int (length (extract_pixels (data ([img1] ! 0)))) < 2 \<and>
   (\<exists>H' res. kMeansSegmentation_part000 (\<lambda>_. 0) [img1] 0 2 = Some (H', Inr res) \<and>
               int (length (centroids res)) = 2 \<and>
               length (labels res) = length (extract_pixels (data ([img1] ! 0)))) \<and>
   (\<exists>H'. kMeansSegmentation_part000 (\<lambda>_. 0) [img1] 0 0 = Some (H', Inl TypeError)) \<and>
   (\<exists>H'. kMeansSegmentation_part000 (\<lambda>_. 0) [img1] 0 (- 1) = Some (H', Inl RangeError))"
proof -
  have w: "wf_image ([img1] ! 0)" by (simp add: wf_img1)
  have n: "int (length (extract_pixels (data ([img1] ! 0)))) < 2" by (simp add: img1_def)
  note a = kMeans_accepts_every_positive_k[OF valid_rnd_zero w, of 2, THEN conjunct1, rule_format]
  note b = kMeans_accepts_every_positive_k[OF valid_rnd_zero w, of 0, THEN conjunct2, THEN conjunct1, rule_format]
  note c = kMeans_accepts_every_positive_k[OF valid_rnd_zero w, of "- 1", THEN conjunct2, THEN conjunct2, rule_format]
  have a': "\<exists>H' res. kMeansSegmentation_part000 (\<lambda>_. 0) [img1] 0 2 = Some (H', Inr res) \<and>
               int (length (centroids res)) = 2 \<and>
               length (labels res) = length (extract_pixels (data ([img1] ! 0)))"
    using a by simp
  have b': "\<exists>H'. kMeansSegmentation_part000 (\<lambda>_. 0) [img1] 0 0 = Some (H', Inl TypeError)"
    using b by simp
  have c': "\<exists>H'. kMeansSegmentation_part000 (\<lambda>_. 0) [img1] 0 (- 1) = Some (H', Inl RangeError)"
    using c by simp
  show ?thesis using valid_rnd_zero w n a' b' c' by simp
qed

section \<open>The input image is never written\<close>

lemma set_byte_frame:
  "length (set_byte r idx v H) = length H"
  "q \<noteq> r \<Longrightarrow> set_byte r idx v H ! q = H ! q"
  "r < length H \<Longrightarrow> width (set_byte r idx v H ! r) = width (H ! r)"
  "r < length H \<Longrightarrow> height (set_byte r idx v H ! r) = height (H ! r)"
  "r < length H \<Longrightarrow> data (set_byte r idx v H ! r) = (data (H ! r))[idx := v]"
  by (simp_all add: set_byte_def)

lemma write_pixel_frame:
  "length (write_pixel r i c H) = length H"
  "q \<noteq> r \<Longrightarrow> write_pixel r i c H ! q = H ! q"
  "r < length H \<Longrightarrow> width (write_pixel r i c H ! r) = width (H ! r)"
  "r < length H \<Longrightarrow> height (write_pixel r i c H ! r) = height (H ! r)"
  "r < length H \<Longrightarrow> length (data (write_pixel r i c H ! r)) = length (data (H ! r))"
  by (cases c; simp add: write_pixel_def set_byte_frame)+

lemma write_pixel_alpha:
  assumes "r < length H"
  shows "4 * i + 3 < length (data (H ! r)) \<Longrightarrow> data (write_pixel r i c H ! r) ! (4 * i + 3) = 255"
    and "j \<noteq> i \<Longrightarrow> data (write_pixel r i c H ! r) ! (4 * j + 3) = data (H ! r) ! (4 * j + 3)"
proof -
  obtain cr cg cb where c: "c = (cr, cg, cb)" by (cases c)
  show "4 * i + 3 < length (data (H ! r)) \<Longrightarrow> data (write_pixel r i c H ! r) ! (4 * i + 3) = 255"
    using assms by (simp add: c write_pixel_def set_byte_frame)
  assume ji: "j \<noteq> i"
  then have "4 * j + 3 \<noteq> 4 * i + 3" "4 * j + 3 \<noteq> 4 * i + 2" "4 * j + 3 \<noteq> 4 * i + 1"
    "4 * j + 3 \<noteq> 4 * i"
    by presburger+
  then show "data (write_pixel r i c H ! r) ! (4 * j + 3) = data (H ! r) ! (4 * j + 3)"
    using assms by (simp add: c write_pixel_def set_byte_frame)
qed

lemma fold_write_pixel:
  assumes "r < length H"
  shows "length (fold (\<lambda>i. write_pixel r i (f i)) is H) = length H \<and>
         (\<forall>q. q \<noteq> r \<longrightarrow> fold (\<lambda>i. write_pixel r i (f i)) is H ! q = H ! q) \<and>
         width (fold (\<lambda>i. write_pixel r i (f i)) is H ! r) = width (H ! r) \<and>
         height (fold (\<lambda>i. write_pixel r i (f i)) is H ! r) = height (H ! r) \<and>
         length (data (fold (\<lambda>i. write_pixel r i (f i)) is H ! r)) = length (data (H ! r)) \<and>
         (\<forall>j. 4 * j + 3 < length (data (H ! r)) \<longrightarrow>
              data (fold (\<lambda>i. write_pixel r i (f i)) is H ! r) ! (4 * j + 3) =
              (if j \<in> set is then 255 else data (H ! r) ! (4 * j + 3)))"
  using assms
proof (induction "is" arbitrary: H)
  case Nil
  then show ?case by simp
next
  case (Cons i "is")
  define H1 where "H1 = write_pixel r i (f i) H"
  have r1: "r < length H1" using Cons.prems by (simp add: H1_def write_pixel_frame)
  note ih = Cons.IH[OF r1]
  have fold: "fold (\<lambda>i. write_pixel r i (f i)) (i # is) H = fold (\<lambda>i. write_pixel r i (f i)) is H1"
    by (simp add: H1_def)
  have ld: "length (data (H1 ! r)) = length (data (H ! r))"
    using Cons.prems by (simp add: H1_def write_pixel_frame)
  have alpha: "\<forall>j. 4 * j + 3 < length (data (H ! r)) \<longrightarrow>
              data (fold (\<lambda>i. write_pixel r i (f i)) is H1 ! r) ! (4 * j + 3) =
              (if j \<in> set (i # is) then 255 else data (H ! r) ! (4 * j + 3))"
  proof (intro allI impI)
    fix j assume inr: "4 * j + 3 < length (data (H ! r))"
    have a: "data (fold (\<lambda>i. write_pixel r i (f i)) is H1 ! r) ! (4 * j + 3) =
          (if j \<in> set is then 255 else data (H1 ! r) ! (4 * j + 3))"
      using ih inr ld by simp
    show "data (fold (\<lambda>i. write_pixel r i (f i)) is H1 ! r) ! (4 * j + 3) =
              (if j \<in> set (i # is) then 255 else data (H ! r) ! (4 * j + 3))"
    proof (cases "j = i")
      case True
      then show ?thesis
        using a inr write_pixel_alpha(1)[OF Cons.prems, of i "f i"] by (simp add: H1_def)
    next
      case False
      then show ?thesis
        using a write_pixel_alpha(2)[OF Cons.prems, of j i "f i"] by (simp add: H1_def)
    qed
  qed
  show ?case
    unfolding fold using ih alpha Cons.prems
    by (simp add: H1_def write_pixel_frame)
qed

lemma recolor_frame:
  assumes "r < length H"
  shows "length (recolor r colors labs n H) = length H"
    and "q \<noteq> r \<Longrightarrow> recolor r colors labs n H ! q = H ! q"
    and "width (recolor r colors labs n H ! r) = width (H ! r)"
    and "height (recolor r colors labs n H ! r) = height (H ! r)"
    and "length (data (recolor r colors labs n H ! r)) = length (data (H ! r))"
    and "j < n \<Longrightarrow> 4 * j + 3 < length (data (H ! r)) \<Longrightarrow>
           data (recolor r colors labs n H ! r) ! (4 * j + 3) = 255"
  using fold_write_pixel[OF assms, of "\<lambda>i. colors ! (labs ! i)" "[0..<n]"]
  unfolding recolor_def by simp_all

lemma alloc_fresh:
  "fresh_output H inp (snd (new_ImageData (width (H ! inp)) (height (H ! inp)) H))"
  by (simp add: fresh_output_def new_ImageData_def nth_append)

lemma recolor_fresh:
  "fresh_output H inp
     (recolor (length H) colors labs n (snd (new_ImageData (width (H ! inp)) (height (H ! inp)) H)))"
proof -
  define H1 where "H1 = snd (new_ImageData (width (H ! inp)) (height (H ! inp)) H)"
  have f: "fresh_output H inp H1" unfolding H1_def by (rule alloc_fresh)
  have r: "length H < length H1" using f by (simp add: fresh_output_def)
  have "\<forall>q<length H. recolor (length H) colors labs n H1 ! q = H ! q"
    using recolor_frame(2)[OF r] f by (simp add: fresh_output_def)
  then show ?thesis
    using recolor_frame(1,3,4,5)[OF r, of colors labs n] f
    unfolding H1_def[symmetric] fresh_output_def by simp
qed

lemma recolor_opaque:
  assumes "n = width (H ! inp) * height (H ! inp)"
  shows "opaque (recolor (length H) colors labs n
           (snd (new_ImageData (width (H ! inp)) (height (H ! inp)) H)) ! length H)"
proof -
  define H1 where "H1 = snd (new_ImageData (width (H ! inp)) (height (H ! inp)) H)"
  have f: "fresh_output H inp H1" unfolding H1_def by (rule alloc_fresh)
  have r: "length H < length H1" using f by (simp add: fresh_output_def)
  have d: "length (data (H1 ! length H)) = 4 * n" using f assms by (simp add: fresh_output_def)
  have wh: "width (recolor (length H) colors labs n H1 ! length H) *
            height (recolor (length H) colors labs n H1 ! length H) = n"
    using recolor_frame(3,4)[OF r, of colors labs n] f assms by (simp add: fresh_output_def)
  have "\<forall>i<n. data (recolor (length H) colors labs n H1 ! length H) ! (4 * i + 3) = 255"
  proof (intro allI impI)
    fix i assume i: "i < n"
    then have "4 * i + 3 < length (data (H1 ! length H))" using d by simp
    from recolor_frame(6)[OF r i this]
    show "data (recolor (length H) colors labs n H1 ! length H) ! (4 * i + 3) = 255" .
  qed
  then show ?thesis unfolding H1_def[symmetric] opaque_def wh by simp
qed

lemma fresh_output_input:
  assumes "fresh_output H inp H'" "inp < length H"
  shows "H' ! inp = H ! inp"
  using assms by (simp add: fresh_output_def)

lemma kMeansSegmentation_part000_frame:
  assumes "inp < length H" "wf_image (H ! inp)"
  shows "case kMeansSegmentation_part000 rnd H inp k of
           None \<Rightarrow> True
         | Some (H', r) \<Rightarrow> fresh_output H inp H' \<and> H' ! inp = H ! inp \<and>
             (case r of Inl e \<Rightarrow> True
              | Inr res \<Rightarrow> imageData res = length H \<and> opaque (H' ! imageData res))"
proof -
  define pixels where "pixels = extract_pixels (data (H ! inp))"
  have n: "length pixels = width (H ! inp) * height (H ! inp)"
    using wf_image_pixels(2)[OF assms(2)] by (simp add: pixels_def)
  show ?thesis
  proof (cases "kMeans_cluster rnd pixels k")
    case None
    then show ?thesis
      by (simp add: kMeansSegmentation_part000_def Let_def split_beta pixels_def[symmetric])
  next
    case (Some r)
    show ?thesis
    proof (cases r)
      case (Inl e)
      then show ?thesis
        using Some alloc_fresh[of H inp] fresh_output_input[OF alloc_fresh assms(1)]
        by (simp add: kMeansSegmentation_part000_def Let_def split_beta pixels_def[symmetric])
    next
      case (Inr t)
      obtain labs cs its ps where t: "t = (labs, cs, its, ps)" by (cases t)
      show ?thesis
        using Some Inr t recolor_fresh[of H inp cs labs "length pixels"]
          fresh_output_input[OF recolor_fresh assms(1), of cs labs "length pixels"]
          recolor_opaque[OF n, of cs labs]
        by (simp add: kMeansSegmentation_part000_def Let_def split_beta pixels_def[symmetric]
            new_ImageData_def)
    qed
  qed
qed

lemma kMeansSegmentation_part001_frame:
  assumes "inp < length H" "wf_image (H ! inp)"
  shows "case kMeansSegmentation_part001 rnd H inp k of
           (H', r) \<Rightarrow> fresh_output H inp H' \<and> H' ! inp = H ! inp \<and>
             (case r of Inl e \<Rightarrow> True
              | Inr res \<Rightarrow> imageData res = length H \<and> opaque (H' ! imageData res))"
proof -
  define pixels where "pixels = extract_pixels (data (H ! inp))"
  have n: "length pixels = width (H ! inp) * height (H ! inp)"
    using wf_image_pixels(2)[OF assms(2)] by (simp add: pixels_def)
  show ?thesis
  proof (cases "kmeans_iterations 15 pixels k (random_centroids rnd k) []")
    case (Inl e)
    then show ?thesis
      using alloc_fresh[of H inp] fresh_output_input[OF alloc_fresh assms(1)]
      by (simp add: kMeansSegmentation_part001_def Let_def split_beta pixels_def[symmetric])
  next
    case (Inr t)
    obtain cs labs where t: "t = (cs, labs)" by (cases t)
    define colors where "colors = hue_colors (nat k) (8/10) (7/10)"
    show ?thesis
      using Inr t recolor_fresh[of H inp colors labs "length pixels"]
        fresh_output_input[OF recolor_fresh assms(1), of colors labs "length pixels"]
        recolor_opaque[OF n, of colors labs]
      by (simp add: kMeansSegmentation_part001_def Let_def split_beta pixels_def[symmetric]
          new_ImageData_def colors_def)
  qed
qed

lemma meanShiftSegmentation_part001_frame:
  assumes "inp < length H" "wf_image (H ! inp)"
  shows "case meanShiftSegmentation_part001 H inp bandwidth of
           (H', res) \<Rightarrow> fresh_output H inp H' \<and> H' ! inp = H ! inp \<and>
             imageData res = length H \<and> opaque (H' ! imageData res)"
proof -
  define pixels where "pixels = extract_pixels (data (H ! inp))"
  have n: "length pixels = width (H ! inp) * height (H ! inp)"
    using wf_image_pixels(2)[OF assms(2)] by (simp add: pixels_def)
  obtain modes labs where s: "meanShift_scan bandwidth pixels = (modes, labs)"
    by (cases "meanShift_scan bandwidth pixels")
  define colors where "colors = hue_colors (length modes) (9/10) (6/10)"
  show ?thesis
    using s recolor_fresh[of H inp colors labs "length pixels"]
      fresh_output_input[OF recolor_fresh assms(1), of colors labs "length pixels"]
      recolor_opaque[OF n, of colors labs]
    by (simp add: meanShiftSegmentation_part001_def Let_def split_beta pixels_def[symmetric]
        new_ImageData_def colors_def)
qed

lemma watershedSegmentation_part001_frame:
  assumes "inp < length H" "wf_image (H ! inp)"
  shows "case watershedSegmentation_part001 H inp sigma of
           (H', r) \<Rightarrow> fresh_output H inp H' \<and> H' ! inp = H ! inp \<and>
             (case r of Inl e \<Rightarrow> True
              | Inr res \<Rightarrow> imageData res = length H \<and> opaque (H' ! imageData res))"
proof -
  define n where "n = length (extract_pixels (data (H ! inp)))"
  have n: "n = width (H ! inp) * height (H ! inp)"
    using wf_image_pixels(2)[OF assms(2)] by (simp add: n_def)
  define m where "m = min (length (seeds (gradients (H ! inp)) sigma)) 12"
  define colors where "colors = hue_colors m (85/100) (65/100)"
  define labs where "labs = map (\<lambda>pixelIdx. pixelIdx mod m) [0..<n]"
  define H1 where "H1 = snd (new_ImageData (width (H ! inp)) (height (H ! inp)) H)"
  have eq: "watershedSegmentation_part001 H inp sigma =
      (if m = 0 \<and> 0 < n then (H1, Inl TypeError)
       else (recolor (length H) colors labs n H1,
             Inr \<lparr>imageData = length H, labels = labs, centroids = colors\<rparr>))"
    unfolding watershedSegmentation_part001_def Let_def split_beta m_def n_def colors_def labs_def
      H1_def
    by (simp only: new_ImageData_def fst_conv snd_conv)
  show ?thesis
  proof (cases "m = 0 \<and> 0 < n")
    case True
    show ?thesis
      unfolding eq if_P[OF True] H1_def
      using alloc_fresh[of H inp] fresh_output_input[OF alloc_fresh assms(1)]
      by simp
  next
    case False
    show ?thesis
      unfolding eq if_not_P[OF False] H1_def
      using recolor_fresh[of H inp colors labs n]
        fresh_output_input[OF recolor_fresh assms(1), of colors labs n]
        recolor_opaque[OF n, of colors labs]
      by simp
  qed
qed

lemma placeholders_part000_frame:
  assumes "inp < length H"
  shows "case meanShiftSegmentation_part000 H inp of
           (H', res) \<Rightarrow> fresh_output H inp H' \<and> H' ! inp = H ! inp \<and>
             ms_imageData res = length H \<and>
             data (H' ! ms_imageData res) = replicate (4 * width (H ! inp) * height (H ! inp)) 0"
    and "case watershedSegmentation_part000 H inp of
           (H', res) \<Rightarrow> fresh_output H inp H' \<and> H' ! inp = H ! inp \<and>
             ws_imageData res = length H \<and>
             data (H' ! ws_imageData res) = replicate (4 * width (H ! inp) * height (H ! inp)) 0"
  using alloc_fresh[of H inp] fresh_output_input[OF alloc_fresh assms]
  by (simp_all add: meanShiftSegmentation_part000_def watershedSegmentation_part000_def
      new_ImageData_def)

text \<open>
  Claim C8, as amended: no segmentation function writes to an object that existed before
  the call, so the input image is unchanged, also when the call raises; each call
  allocates exactly one image, of the dimensions of the input. In the image returned by
  \<open>kMeansSegmentation\<close> (both variants), by \<open>meanShiftSegmentation\<close> of part 001 and, when it
  returns, by \<open>watershedSegmentation\<close> of part 001, every alpha byte is 255. The
  placeholders \<open>meanShiftSegmentation\<close> and \<open>watershedSegmentation\<close> of part 000 return the
  new image as allocated: every byte 0.
\<close>

theorem segmentation_leaves_input_unchanged:
  assumes "inp < length H" "wf_image (H ! inp)"
  shows "(case kMeansSegmentation_part000 rnd H inp k of
           None \<Rightarrow> True
         | Some (H', r) \<Rightarrow> fresh_output H inp H' \<and> H' ! inp = H ! inp \<and>
             (case r of Inl e \<Rightarrow> True
              | Inr res \<Rightarrow> imageData res = length H \<and> opaque (H' ! imageData res))) \<and>
         (case kMeansSegmentation_part001 rnd H inp k of
           (H', r) \<Rightarrow> fresh_output H inp H' \<and> H' ! inp = H ! inp \<and>
             (case r of Inl e \<Rightarrow> True
              | Inr res \<Rightarrow> imageData res = length H \<and> opaque (H' ! imageData res))) \<and>
         (case meanShiftSegmentation_part001 H inp bandwidth of
           (H', res) \<Rightarrow> fresh_output H inp H' \<and> H' ! inp = H ! inp \<and>
             imageData res = length H \<and> opaque (H' ! imageData res)) \<and>
         (case watershedSegmentation_part001 H inp sigma of
           (H', r) \<Rightarrow> fresh_output H inp H' \<and> H' ! inp = H ! inp \<and>
             (case r of Inl e \<Rightarrow> True
              | Inr res \<Rightarrow> imageData res = length H \<and> opaque (H' ! imageData res))) \<and>
         (case meanShiftSegmentation_part000 H inp of
           (H', res) \<Rightarrow> fresh_output H inp H' \<and> H' ! inp = H ! inp \<and>
             ms_imageData res = length H \<and>
             data (H' ! ms_imageData res) = replicate (4 * width (H ! inp) * height (H ! inp)) 0) \<and>
         (case watershedSegmentation_part000 H inp of
           (H', res) \<Rightarrow> fresh_output H inp H' \<and> H' ! inp = H ! inp \<and>
             ws_imageData res = length H \<and>
             data (H' ! ws_imageData res) = replicate (4 * width (H ! inp) * height (H ! inp)) 0)"
  by (intro conjI kMeansSegmentation_part000_frame[OF assms] kMeansSegmentation_part001_frame[OF assms]
      meanShiftSegmentation_part001_frame[OF assms] watershedSegmentation_part001_frame[OF assms]
      placeholders_part000_frame[OF assms(1)])

theorem segmentation_leaves_input_unchanged_witness:
  "0 < length [img2] \<and> wf_image ([img2] ! 0) \<and>
   (case kMeansSegmentation_part000 (\<lambda>_. 0) [img2] 0 2 of
           None \<Rightarrow> True
         | Some (H', r) \<Rightarrow> fresh_output [img2] 0 H' \<and> H' ! 0 = [img2] ! 0 \<and>
             (case r of Inl e \<Rightarrow> True
              | Inr res \<Rightarrow> imageData res = length [img2] \<and> opaque (H' ! imageData res))) \<and>
         (case kMeansSegmentation_part001 (\<lambda>_. 0) [img2] 0 2 of
           (H', r) \<Rightarrow> fresh_output [img2] 0 H' \<and> H' ! 0 = [img2] ! 0 \<and>
             (case r of Inl e \<Rightarrow> True
              | Inr res \<Rightarrow> imageData res = length [img2] \<and> opaque (H' ! imageData res))) \<and>
         (case meanShiftSegmentation_part001 [img2] 0 1 of
           (H', res) \<Rightarrow> fresh_output [img2] 0 H' \<and> H' ! 0 = [img2] ! 0 \<and>
             imageData res = length [img2] \<and> opaque (H' ! imageData res)) \<and>
         (case watershedSegmentation_part001 [img2] 0 1 of
           (H', r) \<Rightarrow> fresh_output [img2] 0 H' \<and> H' ! 0 = [img2] ! 0 \<and>
             (case r of Inl e \<Rightarrow> True
              | Inr res \<Rightarrow> imageData res = length [img2] \<and> opaque (H' ! imageData res))) \<and>
         (case meanShiftSegmentation_part000 [img2] 0 of
           (H', res) \<Rightarrow> fresh_output [img2] 0 H' \<and> H' ! 0 = [img2] ! 0 \<and>
             ms_imageData res = length [img2] \<and>
             data (H' ! ms_imageData res) = replicate (4 * width ([img2] ! 0) * height ([img2] ! 0)) 0) \<and>
         (case watershedSegmentation_part000 [img2] 0 of
           (H', res) \<Rightarrow> fresh_output [img2] 0 H' \<and> H' ! 0 = [img2] ! 0 \<and>
             ws_imageData res = length [img2] \<and>
             data (H' ! ws_imageData res) = replicate (4 * width ([img2] ! 0) * height ([img2] ! 0)) 0)"
proof -
  have a: "0 < length [img2]" by simp
  have w: "wf_image ([img2] ! 0)" by (simp add: wf_img2)
  note inst = segmentation_leaves_input_unchanged[OF a w, of "\<lambda>_. 0" 2 1 1]
  show ?thesis by (intro conjI a w inst[THEN conjunct1] inst[THEN conjunct2, THEN conjunct1]
      inst[THEN conjunct2, THEN conjunct2, THEN conjunct1]
      inst[THEN conjunct2, THEN conjunct2, THEN conjunct2, THEN conjunct1]
      inst[THEN conjunct2, THEN conjunct2, THEN conjunct2, THEN conjunct2, THEN conjunct1]
      inst[THEN conjunct2, THEN conjunct2, THEN conjunct2, THEN conjunct2, THEN conjunct2])
qed

text \<open>
  Claim C8 as stated fails for the placeholder \<open>meanShiftSegmentation\<close> of part 000: the
  alpha byte of the image it returns is 0.
\<close>

theorem placeholder_output_not_opaque_counterexample:
  "meanShiftSegmentation_part000 [img1] 0 =
     ([img1, \<lparr>width = 1, height = 1, data = [0, 0, 0, 0]\<rparr>],
      \<lparr>ms_imageData = 1, ms_labels = [], ms_bandwidth = 0\<rparr>) \<and>
   \<not> opaque \<lparr>width = 1, height = 1, data = [0, 0, 0, 0]\<rparr>"
  by (simp add: meanShiftSegmentation_part000_def new_ImageData_def img1_def opaque_def
      replicate_numeral)

section \<open>The weights of the k-means++ seeding (part 000)\<close>

lemma sqrt_9: "sqrt 9 = 3" and sqrt_16: "sqrt 16 = 4"
  using real_sqrt_abs[of 3] real_sqrt_abs[of 4] by simp_all

lemma img3_pixels: "extract_pixels (data img3) = [(0, 0, 0), (3, 0, 0), (4, 0, 0)]"
  by (simp add: img3_def)

lemma img3_distances:
  "min_distance [(0, 0, 0)] (0, 0, 0) = 0"
  "min_distance [(0, 0, 0)] (3, 0, 0) = 3"
  "min_distance [(0, 0, 0)] (4, 0, 0) = 4"
  by (simp_all add: min_distance_def sqrt_9 sqrt_16)

lemma img3_seeding:
  "kmeanspp_loop rnd_seeding [(0, 0, 0), (3, 0, 0), (4, 0, 0)] 2 [(0, 0, 0)] 1
     = Some ([(0, 0, 0), (3, 0, 0)], 2)"
proof -
  have "kmeanspp_loop rnd_seeding [(0, 0, 0), (3, 0, 0), (4, 0, 0)] 2 [(0, 0, 0)] 1
      = kmeanspp_loop rnd_seeding [(0, 0, 0), (3, 0, 0), (4, 0, 0)] 2 [(0, 0, 0), (3, 0, 0)] 2"
    by (subst kmeanspp_loop.simps) (simp add: Let_def img3_distances rnd_seeding_def numeral_2_eq_2)
  also have "\<dots> = Some ([(0, 0, 0), (3, 0, 0)], 2)"
    by (subst kmeanspp_loop.simps) simp
  finally show ?thesis .
qed

text \<open>Over all draws: the code seeds pixel 1 for the draws in \<open>(0, 3/7]\<close>, sampling in
  proportion to the squared distances would seed it for the draws in \<open>(0, 9/25]\<close>.\<close>

lemma img3_seeding_intervals:
  "pick_cumulative (u * 7) [0, 3, 4] 0 0 = Some 1 \<longleftrightarrow> 0 < u \<and> u \<le> 3/7"
  "pick_cumulative (u * 25) [0, 9, 16] 0 0 = Some 1 \<longleftrightarrow> 0 < u \<and> u \<le> 9/25"
  by auto

text \<open>
  Claim C1 at the failing input: with the first centroid at pixel 0 the code weighs the
  pixels by their distances 0, 3, 4, where the squared distances are 0, 9, 16. For the
  draw 0.4 the threshold is 2.8 of 7 and the code picks pixel 1; sampling in proportion to
  the squared distances has the threshold 10 of 25 and picks pixel 2.
\<close>

theorem seeding_weights_not_squared:
  "kmeanspp_loop rnd_seeding (extract_pixels (data img3)) 2 [(0, 0, 0)] 1
     = Some ([(0, 0, 0), (3, 0, 0)], 2) \<and>
   map (min_distance [(0, 0, 0)]) (extract_pixels (data img3)) = [0, 3, 4] \<and>
   pick_cumulative (rnd_seeding 1 * 7) [0, 3, 4] 0 0 = Some 1 \<and>
   spec_squared_weights [(0, 0, 0)] (extract_pixels (data img3)) = [0, 9, 16] \<and>
   pick_cumulative (rnd_seeding 1 * 25) [0, 9, 16] 0 0 = Some 2"
proof (intro conjI)
  show "kmeanspp_loop rnd_seeding (extract_pixels (data img3)) 2 [(0, 0, 0)] 1
     = Some ([(0, 0, 0), (3, 0, 0)], 2)"
    unfolding img3_pixels by (rule img3_seeding)
  show "map (min_distance [(0, 0, 0)]) (extract_pixels (data img3)) = [0, 3, 4]"
    unfolding img3_pixels by (simp add: img3_distances)
  show "pick_cumulative (rnd_seeding 1 * 7) [0, 3, 4] 0 0 = Some 1"
    by (simp add: rnd_seeding_def)
  show "spec_squared_weights [(0, 0, 0)] (extract_pixels (data img3)) = [0, 9, 16]"
    unfolding img3_pixels spec_squared_weights_def by (simp add: img3_distances)
  show "pick_cumulative (rnd_seeding 1 * 25) [0, 9, 16] 0 0 = Some 2"
    by (simp add: rnd_seeding_def)
qed

section \<open>The number of passes of the k-means loop (part 000)\<close>

lemma chain_dist [simp]:
  "euclideanDistance (0, 0, 0) (0, 0, 0) = 0" "euclideanDistance (1, 0, 0) (1, 0, 0) = 0"
  "euclideanDistance (0, 0, 0) (1, 0, 0) = 1" "euclideanDistance (1, 0, 0) (0, 0, 0) = 1"
  by simp_all

lemma chain_centroids_nth:
  assumes "t \<le> 102" "j < 102"
  shows "chain_centroids t ! j = (if j < 102 - t then (0, 0, 0) else (1, 0, 0))"
  using assms by (simp add: chain_centroids_def nth_append)

lemma chain_centroids_length: "t \<le> 102 \<Longrightarrow> length (chain_centroids t) = 102"
  by (simp add: chain_centroids_def)

lemma chain_nearest:
  assumes "1 \<le> t" "t \<le> 101"
  shows "nearest (chain_centroids t) (0, 0, 0) = 0"
    and "nearest (chain_centroids t) (1, 0, 0) = 102 - t"
proof -
  have t: "t \<le> 102" using assms by simp
  note n = chain_centroids_nth[OF t]
  show "nearest (chain_centroids t) (0, 0, 0) = 0"
  proof (rule nearest_unique)
    show "0 < length (chain_centroids t)" by (simp add: chain_centroids_length[OF t])
    show "\<forall>j<length (chain_centroids t).
            euclideanDistance (0, 0, 0) (chain_centroids t ! 0)
              \<le> euclideanDistance (0, 0, 0) (chain_centroids t ! j)"
      using assms by (simp add: chain_centroids_length[OF t] n)
    show "\<forall>j<0. euclideanDistance (0, 0, 0) (chain_centroids t ! 0)
              < euclideanDistance (0, 0, 0) (chain_centroids t ! j)"
      by simp
  qed
  show "nearest (chain_centroids t) (1, 0, 0) = 102 - t"
  proof (rule nearest_unique)
    show "102 - t < length (chain_centroids t)"
      using assms by (simp add: chain_centroids_length[OF t])
    show "\<forall>j<length (chain_centroids t).
            euclideanDistance (1, 0, 0) (chain_centroids t ! (102 - t))
              \<le> euclideanDistance (1, 0, 0) (chain_centroids t ! j)"
      using assms by (simp add: chain_centroids_length[OF t] n)
    show "\<forall>j<102 - t. euclideanDistance (1, 0, 0) (chain_centroids t ! (102 - t))
              < euclideanDistance (1, 0, 0) (chain_centroids t ! j)"
      using assms by (simp add: n)
  qed
qed

lemma chain_assignment:
  assumes "1 \<le> t" "t \<le> 101"
  shows "map (nearest (chain_centroids t)) chain_pixels = chain_labels (102 - t)"
  by (simp add: chain_pixels_def chain_labels_def chain_nearest[OF assms])

lemma chain_clusters:
  assumes "1 \<le> t" "t \<le> 101" "j < 102"
  shows "ccount (pass_clusters (chain_centroids t) chain_pixels ! j) =
           (if j = 0 then 101 else if j = 102 - t then 1 else 0)"
    and "csum (pass_clusters (chain_centroids t) chain_pixels ! j) =
           (if j = 102 - t then (1, 0, 0) else (0, 0, 0))"
proof -
  have t: "t \<le> 102" using assms by simp
  have j: "j < length (chain_centroids t)" using assms(3) by (simp add: chain_centroids_length[OF t])
  have ne: "102 - t \<noteq> 0" using assms by simp
  have f: "filter (\<lambda>p. nearest (chain_centroids t) p = j) chain_pixels =
      (if j = 0 then replicate 101 (0, 0, 0) else []) @ (if j = 102 - t then [(1, 0, 0)] else [])"
    using ne by (auto simp: chain_pixels_def chain_nearest[OF assms(1,2)])
  show "ccount (pass_clusters (chain_centroids t) chain_pixels ! j) =
           (if j = 0 then 101 else if j = 102 - t then 1 else 0)"
    using ne by (simp add: pass_clusters_nth(2)[OF j] f)
  show "csum (pass_clusters (chain_centroids t) chain_pixels ! j) =
           (if j = 102 - t then (1, 0, 0) else (0, 0, 0))"
    using ne by (simp add: pass_clusters_nth(1)[OF j] f sum_list_replicate)
qed

lemma empties_before_Suc:
  assumes "j < length clusters"
  shows "empties_before clusters (Suc j) =
           empties_before clusters j + (if ccount (clusters ! j) = 0 then 1 else 0)"
  using assms by (simp add: empties_before_def take_Suc_conv_app_nth)

lemma chain_empties_before:
  assumes "1 \<le> t" "t \<le> 101" "j \<le> 102"
  shows "empties_before (pass_clusters (chain_centroids t) chain_pixels) j =
           (if j = 0 then 0 else j - 1 - (if 102 - t < j then 1 else 0))"
  using assms(3)
proof (induction j)
  case 0
  show ?case by (simp add: empties_before_def)
next
  case (Suc j)
  have t: "t \<le> 102" using assms by simp
  have j: "j < 102" using Suc.prems by simp
  have l: "j < length (pass_clusters (chain_centroids t) chain_pixels)"
    using j by (simp add: pass_clusters_def chain_centroids_length[OF t])
  have ih: "empties_before (pass_clusters (chain_centroids t) chain_pixels) j =
           (if j = 0 then 0 else j - 1 - (if 102 - t < j then 1 else 0))"
    using Suc by simp
  show ?case
    unfolding empties_before_Suc[OF l] ih chain_clusters(1)[OF assms(1,2) j]
    using assms(1,2) by auto
qed

lemma rnd_chain_pass:
  assumes "e < 100"
  shows "rnd_chain (102 + 100 * s + e) = (if e + s < 99 then 0 else 199/200)"
proof -
  have "(102 + 100 * s + e - 102) mod 100 = e" "(102 + 100 * s + e - 102) div 100 = s"
    using assms by simp_all
  then show ?thesis by (simp add: rnd_chain_def)
qed

lemma random_index_chain:
  "random_index 0 102 = 0" "random_index (199/200) 102 = 101"
  by (simp_all add: random_index_def)

lemma chain_update:
  assumes t: "1 \<le> t" "t \<le> 100"
  shows "update_centroids rnd_chain (chain_centroids t)
           (pass_clusters (chain_centroids t) chain_pixels) (102 + 100 * (t - 1))
         = (chain_centroids (Suc t), 102 + 100 * t)"
proof -
  define cs where "cs = chain_centroids t"
  define cl where "cl = pass_clusters cs chain_pixels"
  define ri where "ri = 102 + 100 * (t - 1)"
  have t1: "t \<le> 101" and t2: "t \<le> 102" and t3: "Suc t \<le> 102" using t by simp_all
  have lcs: "length cs = 102" by (simp add: cs_def chain_centroids_length[OF t2])
  have lcl: "length cl = 102" by (simp add: cl_def pass_clusters_def lcs)
  have cnt: "ccount (cl ! j) = (if j = 0 then 101 else if j = 102 - t then 1 else 0)"
    if "j < 102" for j
    unfolding cl_def cs_def by (rule chain_clusters(1)[OF t(1) t1 that])
  have sm: "csum (cl ! j) = (if j = 102 - t then (1, 0, 0) else (0, 0, 0))"
    if "j < 102" for j
    unfolding cl_def cs_def by (rule chain_clusters(2)[OF t(1) t1 that])
  have eb: "empties_before cl j = (if j = 0 then 0 else j - 1 - (if 102 - t < j then 1 else 0))"
    if "j \<le> 102" for j
    unfolding cl_def cs_def by (rule chain_empties_before[OF t(1) t1 that])
  have cs0: "cs ! 0 = (0, 0, 0)" and cs101: "cs ! 101 = (1, 0, 0)"
    using t chain_centroids_nth[OF t2, of 0] chain_centroids_nth[OF t2, of 101]
    by (simp_all add: cs_def)
  have new: "(if 0 < ccount (cl ! j)
              then div_color (csum (cl ! j)) (real (ccount (cl ! j)))
              else cs ! random_index (rnd_chain (ri + empties_before cl j)) (length cs))
             = chain_centroids (Suc t) ! j" if j: "j < 102" for j
  proof -
    consider "j = 0" | "j = 102 - t" | "j \<noteq> 0" "j < 101 - t" | "j = 101 - t" "j \<noteq> 0" | "102 - t < j"
      by linarith
    then show ?thesis
    proof cases
      case 1
      have c: "ccount (cl ! j) = 101" "csum (cl ! j) = (0, 0, 0)"
        using 1 t cnt[OF j] sm[OF j] by simp_all
      have n: "chain_centroids (Suc t) ! j = (0, 0, 0)"
        using 1 t chain_centroids_nth[OF t3 j] by simp
      show ?thesis unfolding c n by simp
    next
      case 2
      have c: "ccount (cl ! j) = 1" "csum (cl ! j) = (1, 0, 0)"
        using 2 t cnt[OF j] sm[OF j] by simp_all
      have n: "chain_centroids (Suc t) ! j = (1, 0, 0)"
        using 2 t chain_centroids_nth[OF t3 j] by simp
      show ?thesis unfolding c n by simp
    next
      case 3
      have c: "ccount (cl ! j) = 0" using 3 t cnt[OF j] by simp
      have e: "empties_before cl j = j - 1" using 3 j eb[of j] by simp
      have "ri + (j - 1) = 102 + 100 * (t - 1) + (j - 1)" by (simp add: ri_def)
      moreover have "j - 1 < 100" "(j - 1) + (t - 1) < 99" using 3 j t by simp_all
      ultimately have r: "rnd_chain (ri + (j - 1)) = 0" by (simp add: rnd_chain_pass)
      have n: "chain_centroids (Suc t) ! j = (0, 0, 0)"
        using 3 t chain_centroids_nth[OF t3 j] by simp
      show ?thesis unfolding c e r lcs random_index_chain cs0 n by simp
    next
      case 4
      have c: "ccount (cl ! j) = 0" using 4 t cnt[OF j] by simp
      have e: "empties_before cl j = j - 1" using 4 j t eb[of j] by simp
      have "ri + (j - 1) = 102 + 100 * (t - 1) + (j - 1)" by (simp add: ri_def)
      moreover have "j - 1 < 100" "\<not> (j - 1) + (t - 1) < 99" using 4 j t by simp_all
      ultimately have r: "rnd_chain (ri + (j - 1)) = 199/200" by (simp add: rnd_chain_pass)
      have n: "chain_centroids (Suc t) ! j = (1, 0, 0)"
        using 4 t chain_centroids_nth[OF t3 j] by simp
      show ?thesis unfolding c e r lcs random_index_chain cs101 n by simp
    next
      case 5
      have c: "ccount (cl ! j) = 0" using 5 t cnt[OF j] by simp
      have e: "empties_before cl j = j - 2" using 5 j t eb[of j] by simp
      have "ri + (j - 2) = 102 + 100 * (t - 1) + (j - 2)" by (simp add: ri_def)
      moreover have "j - 2 < 100" "\<not> (j - 2) + (t - 1) < 99" using 5 j t by simp_all
      ultimately have r: "rnd_chain (ri + (j - 2)) = 199/200" by (simp add: rnd_chain_pass)
      have n: "chain_centroids (Suc t) ! j = (1, 0, 0)"
        using 5 t chain_centroids_nth[OF t3 j] by simp
      show ?thesis unfolding c e r lcs random_index_chain cs101 n by simp
    qed
  qed
  have a: "map (\<lambda>j. if 0 < ccount (cl ! j)
              then div_color (csum (cl ! j)) (real (ccount (cl ! j)))
              else cs ! random_index (rnd_chain (ri + empties_before cl j)) (length cs))
            [0..<length cl] = chain_centroids (Suc t)"
  proof (rule nth_equalityI)
    show "length (map (\<lambda>j. if 0 < ccount (cl ! j)
              then div_color (csum (cl ! j)) (real (ccount (cl ! j)))
              else cs ! random_index (rnd_chain (ri + empties_before cl j)) (length cs))
            [0..<length cl]) = length (chain_centroids (Suc t))"
      by (simp add: lcl chain_centroids_length[OF t3])
  next
    fix j assume "j < length (map (\<lambda>j. if 0 < ccount (cl ! j)
              then div_color (csum (cl ! j)) (real (ccount (cl ! j)))
              else cs ! random_index (rnd_chain (ri + empties_before cl j)) (length cs))
            [0..<length cl])"
    then have j: "j < 102" by (simp add: lcl)
    have "map (\<lambda>j. if 0 < ccount (cl ! j)
              then div_color (csum (cl ! j)) (real (ccount (cl ! j)))
              else cs ! random_index (rnd_chain (ri + empties_before cl j)) (length cs))
            [0..<length cl] ! j =
          (if 0 < ccount (cl ! j)
              then div_color (csum (cl ! j)) (real (ccount (cl ! j)))
              else cs ! random_index (rnd_chain (ri + empties_before cl j)) (length cs))"
      using j by (simp add: lcl)
    then show "map (\<lambda>j. if 0 < ccount (cl ! j)
              then div_color (csum (cl ! j)) (real (ccount (cl ! j)))
              else cs ! random_index (rnd_chain (ri + empties_before cl j)) (length cs))
            [0..<length cl] ! j = chain_centroids (Suc t) ! j"
      unfolding new[OF j] .
  qed
  have "length (filter (\<lambda>c. ccount c = 0) cl) = empties_before cl 102"
    by (simp add: empties_before_def lcl)
  also have "\<dots> = 100" using t eb[of 102] by simp
  finally have b: "ri + length (filter (\<lambda>c. ccount c = 0) cl) = 102 + 100 * t"
    using t by (simp add: ri_def)
  show ?thesis
    unfolding cs_def[symmetric] cl_def[symmetric] ri_def[symmetric] update_centroids_closed a b ..
qed

lemma chain_labels_length: "length (chain_labels x) = length chain_pixels"
  by (simp add: chain_labels_def chain_pixels_def)

lemma chain_labels_eq: "chain_labels x = chain_labels y \<longleftrightarrow> x = y"
  by (simp add: chain_labels_def)

lemma chain_pass:
  assumes t: "1 \<le> t" "t \<le> 100"
  shows "lloyd_pass rnd_chain chain_pixels 102 (chain_labels x) (chain_centroids t)
           (102 + 100 * (t - 1))
         = Inr (102 - t \<noteq> x, chain_labels (102 - t), chain_centroids (Suc t), 102 + 100 * t)"
proof -
  have t1: "t \<le> 101" and t2: "t \<le> 102" using t by simp_all
  have ne: "chain_centroids t \<noteq> []" using chain_centroids_length[OF t2] by auto
  have k: "(102::int) = int (length (chain_centroids t))" by (simp add: chain_centroids_length[OF t2])
  show ?thesis
    unfolding lloyd_pass_closed[OF ne k chain_labels_length] chain_assignment[OF t(1) t1]
      chain_update[OF t] chain_labels_eq
    by simp
qed

lemma chain_last_pass:
  "\<exists>cs ri. lloyd_pass rnd_chain chain_pixels 102 (chain_labels x) (chain_centroids 101) ri0
         = Inr (1 \<noteq> x, chain_labels 1, cs, ri)"
proof -
  have t2: "(101::nat) \<le> 102" by simp
  have ne: "chain_centroids 101 \<noteq> []" using chain_centroids_length[OF t2] by auto
  have k: "(102::int) = int (length (chain_centroids 101))" by (simp add: chain_centroids_length[OF t2])
  have a: "map (nearest (chain_centroids 101)) chain_pixels = chain_labels 1"
    using chain_assignment[of 101] by simp
  show ?thesis
    unfolding lloyd_pass_closed[OF ne k chain_labels_length] a chain_labels_eq
    by blast
qed

lemma chain_loop:
  assumes "1 \<le> t" "t \<le> 101" "x \<noteq> 102 - t" "it = t - 1" "ri = 102 + 100 * (t - 1)"
  shows "\<exists>labs cs. lloyd_loop rnd_chain chain_pixels 102 it it (chain_labels x)
            (chain_centroids t) ri = Inr (labs, cs, 101, 101)"
  using assms
proof (induction "101 - t" arbitrary: t x it ri)
  case 0
  then have t: "t = 101" by simp
  from chain_last_pass[of x ri] obtain cs ri' where
    p: "lloyd_pass rnd_chain chain_pixels 102 (chain_labels x) (chain_centroids 101)
          ri = Inr (1 \<noteq> x, chain_labels 1, cs, ri')" by blast
  have x: "1 \<noteq> x" using "0.prems"(3) t by simp
  have p': "lloyd_pass rnd_chain chain_pixels 102 (chain_labels x) (chain_centroids t)
          ri = Inr (True, chain_labels 1, cs, ri')"
    using p x t by simp
  have it: "it = 100" using "0.prems"(4) t by simp
  show ?case
    by (subst lloyd_loop.simps, subst p') (simp add: it)
next
  case (Suc m)
  then have t: "1 \<le> t" "t \<le> 100" by simp_all
  have x: "102 - t \<noteq> x" using Suc.prems(3) by simp
  have it: "it < 100" "Suc it = Suc t - 1" using t Suc.prems(4) by simp_all
  have p': "lloyd_pass rnd_chain chain_pixels 102 (chain_labels x) (chain_centroids t) ri
         = Inr (True, chain_labels (102 - t), chain_centroids (Suc t), 102 + 100 * t)"
    using chain_pass[OF t, of x] x Suc.prems(5) by simp
  have step: "lloyd_loop rnd_chain chain_pixels 102 it it (chain_labels x)
            (chain_centroids t) ri
      = lloyd_loop rnd_chain chain_pixels 102 (Suc it) (Suc it) (chain_labels (102 - t))
            (chain_centroids (Suc t)) (102 + 100 * t)"
    by (subst lloyd_loop.simps, subst p') (simp add: it(1))
  have m: "m = 101 - Suc t" using Suc.hyps(2) by simp
  have a: "1 \<le> Suc t" "Suc t \<le> 101" "102 - t \<noteq> 102 - Suc t" using t by simp_all
  have r: "102 + 100 * t = 102 + 100 * (Suc t - 1)" by simp
  from Suc.hyps(1)[OF m a it(2) r] show ?case unfolding step .
qed

lemma fold_min_replicate:
  fixes d :: real
  shows "fold min (replicate m d) d = d"
proof -
  have "(min d ^^ m) d = d" by (induction m) simp_all
  then show ?thesis by simp
qed

lemma min_distance_replicate:
  "min_distance (c # replicate m c) p = euclideanDistance p c"
  unfolding min_distance_def list.map map_replicate math_min.simps by (rule fold_min_replicate)

lemma replicate_snoc_numeral: "replicate 102 x = replicate 101 x @ [x]"
proof -
  have "replicate 102 x = replicate (Suc 101) x" by (rule arg_cong[where f = "\<lambda>n. replicate n x"]) simp
  also have "\<dots> = replicate 101 x @ [x]" by (simp only: replicate_Suc replicate_append_same)
  finally show ?thesis .
qed

lemma min_distance_replicate_pos:
  assumes "0 < m"
  shows "min_distance (replicate m c) p = euclideanDistance p c"
proof -
  obtain m' where "m = Suc m'" using assms by (cases m) auto
  then show ?thesis by (simp add: min_distance_replicate)
qed

lemma length_concat_replicate: "length (concat (replicate n xs)) = n * length xs"
  by (induction n) simp_all

lemma chain_pixels_Cons: "chain_pixels = (0, 0, 0) # (replicate 100 (0, 0, 0) @ [(1, 0, 0)])"
  by (simp add: chain_pixels_def replicate_numeral)

lemma chain_seed_step:
  assumes "m < 100"
  shows "kmeanspp_loop rnd_chain chain_pixels 102 (replicate (Suc m) (0, 0, 0)) (Suc m)
       = kmeanspp_loop rnd_chain chain_pixels 102 (replicate (Suc (Suc m)) (0, 0, 0)) (Suc (Suc m))"
proof -
  have r: "rnd_chain (Suc m) = 0" using assms by (simp add: rnd_chain_def)
  have lt: "int (length (replicate (Suc m) ((0, 0, 0)::color))) < 102" using assms by simp
  have p: "pick_cumulative (rnd_chain (Suc m) * total)
             (map (min_distance (replicate (Suc m) (0, 0, 0))) chain_pixels) 0 0 = Some 0" for total
    unfolding r chain_pixels_Cons by (simp add: min_distance_replicate)
  have a: "replicate (Suc m) ((0, 0, 0)::color) @ [chain_pixels ! 0] = replicate (Suc (Suc m)) (0, 0, 0)"
    unfolding chain_pixels_Cons by (simp add: replicate_append_same)
  show ?thesis
    by (subst kmeanspp_loop.simps) (simp only: lt if_True Let_def p option.case a)
qed

lemma pick_zeros:
  assumes "0 < th" "th \<le> 1"
  shows "pick_cumulative th (replicate n 0 @ [1]) 0 i0 = Some (i0 + n)"
  using assms by (induction n arbitrary: i0) simp_all

lemma chain_seed_last:
  "kmeanspp_loop rnd_chain chain_pixels 102 (replicate 101 (0, 0, 0)) 101 = Some (chain_centroids 1, 102)"
proof -
  have r: "rnd_chain 101 = 1/2" by (simp add: rnd_chain_def)
  have d: "map (min_distance (replicate 101 (0, 0, 0))) chain_pixels = replicate 101 0 @ [1]"
    by (simp add: chain_pixels_def min_distance_replicate_pos)
  have tot: "foldl (+) 0 (replicate 101 0 @ [1::real]) = 1"
    by (simp add: foldl_plus_sum_list sum_list_replicate)
  have p: "pick_cumulative (rnd_chain 101 * 1) (replicate 101 0 @ [1]) 0 0 = Some 101"
    unfolding r using pick_zeros[of "1/2" 101 0] by simp
  have lt: "int (length (replicate 101 ((0, 0, 0)::color))) < 102" by simp
  have px: "chain_pixels ! 101 = (1, 0, 0)" by (simp add: chain_pixels_def nth_append)
  have a: "replicate 101 ((0, 0, 0)::color) @ [(1, 0, 0)] = chain_centroids 1"
    by (simp add: chain_centroids_def)
  have step: "kmeanspp_loop rnd_chain chain_pixels 102 (replicate 101 (0, 0, 0)) 101
      = kmeanspp_loop rnd_chain chain_pixels 102 (chain_centroids 1) (Suc 101)"
    by (subst kmeanspp_loop.simps) (simp only: lt if_True Let_def d tot p option.case px a)
  have ge: "\<not> int (length (chain_centroids 1)) < 102" by (simp add: chain_centroids_def)
  show ?thesis
    unfolding step by (subst kmeanspp_loop.simps) (simp only: ge if_False, simp)
qed

lemma chain_seeding:
  assumes "m \<le> 100"
  shows "kmeanspp_loop rnd_chain chain_pixels 102 (replicate (Suc m) (0, 0, 0)) (Suc m)
           = Some (chain_centroids 1, 102)"
  using assms
proof (induction "100 - m" arbitrary: m)
  case 0
  then have "m = 100" by simp
  then show ?case using chain_seed_last by simp
next
  case (Suc n)
  then have m: "m < 100" by simp
  have "n = 100 - Suc m" "Suc m \<le> 100" using Suc by simp_all
  from Suc.hyps(1)[OF this] show ?case unfolding chain_seed_step[OF m] .
qed

lemma chain_cluster:
  "\<exists>labs cs. kMeans_cluster rnd_chain chain_pixels 102 = Some (Inr (labs, cs, 101, 101))"
proof -
  have f: "[chain_pixels ! random_index (rnd_chain 0) (length chain_pixels)] = replicate (Suc 0) (0, 0, 0)"
    by (simp add: rnd_chain_def random_index_def chain_pixels_Cons)
  have s: "kmeanspp_loop rnd_chain chain_pixels 102
             [chain_pixels ! random_index (rnd_chain 0) (length chain_pixels)] 1
           = Some (chain_centroids 1, 102)"
    unfolding f using chain_seeding[of 0] by simp
  have l: "replicate (length chain_pixels) (0::nat) = chain_labels 0"
    by (simp add: chain_pixels_def chain_labels_def replicate_snoc_numeral)
  have a: "(1::nat) \<le> 1" "(1::nat) \<le> 101" "(0::nat) \<noteq> 102 - 1" "(0::nat) = 1 - 1"
    "(102::nat) = 102 + 100 * (1 - 1)" by simp_all
  from chain_loop[OF a] obtain labs cs where
    "lloyd_loop rnd_chain chain_pixels 102 0 0 (chain_labels 0) (chain_centroids 1) 102
       = Inr (labs, cs, 101, 101)" by blast
  then show ?thesis unfolding kMeans_cluster_def s l by simp
qed

lemma extract_pixels_black:
  "extract_pixels (concat (replicate n [0, 0, 0, 255]) @ rest)
     = replicate n (0, 0, 0) @ extract_pixels rest"
  by (induction n) simp_all

lemma img_chain_pixels: "extract_pixels (data img_chain) = chain_pixels"
  by (simp add: img_chain_def chain_pixels_def extract_pixels_black)

lemma valid_rnd_chain: "valid_rnd rnd_chain"
  by (simp add: valid_rnd_def rnd_chain_def)

lemma wf_img_chain: "wf_image img_chain"
  by (simp add: wf_image_def img_chain_def length_concat_replicate)

text \<open>The loop never makes more than 101 passes, and it makes at least one.\<close>

lemma kMeans_passes_bound:
  assumes "valid_rnd rnd" "wf_image img" "1 \<le> k"
  shows "\<exists>ps. kMeans_passes rnd img k = Some ps \<and> 1 \<le> ps \<and> ps \<le> 101"
proof -
  from kMeans_cluster_total[OF assms(1) wf_image_pixels(1)[OF assms(2)] assms(3)]
  obtain labs cs its ps where
    "kMeans_cluster rnd (extract_pixels (data img)) k = Some (Inr (labs, cs, its, ps))"
    "1 \<le> ps" "ps \<le> 101" by blast
  then show ?thesis by (simp add: kMeans_passes_def)
qed

text \<open>
  Claim C2 at the failing input: on the image of 102 pixels with \<open>k = 102\<close> (so
  \<open>k \<le> n\<close>) and the random numbers of \<open>rnd_chain\<close>, every one of the first 101 passes
  changes the label of the last pixel, and the loop runs 101 assign-and-update passes.
\<close>

theorem kMeans_runs_101_passes:
  "wf_image img_chain \<and> valid_rnd rnd_chain \<and>
   length (extract_pixels (data img_chain)) = 102 \<and>
   kMeans_passes rnd_chain img_chain 102 = Some 101"
proof -
  from chain_cluster obtain labs cs where
    "kMeans_cluster rnd_chain chain_pixels 102 = Some (Inr (labs, cs, 101, 101))" by blast
  then have "kMeans_passes rnd_chain img_chain 102 = Some 101"
    by (simp add: kMeans_passes_def img_chain_pixels)
  moreover have "length (extract_pixels (data img_chain)) = 102"
    by (simp add: img_chain_pixels chain_pixels_def)
  ultimately show ?thesis using wf_img_chain valid_rnd_chain by simp
qed

section \<open>The silhouette score\<close>

lemma zip_upt_nth: "zip xs [0..<length xs] = map (\<lambda>j. (xs ! j, j)) [0..<length xs]"
  by (rule nth_equalityI) simp_all

lemma pixels_with_label_indices:
  assumes "length labs = length pixels"
  shows "pixels_with_label pixels labs (Some l) =
           map (\<lambda>j. pixels ! j) (filter (\<lambda>j. labs ! j = l) [0..<length pixels])"
proof -
  have "filter (\<lambda>j. label_at labs j = Some l) [0..<length pixels] =
        filter (\<lambda>j. labs ! j = l) [0..<length pixels]"
    using assms by (intro filter_cong) (auto simp: label_at_def)
  then show ?thesis
    by (simp add: pixels_with_label_def zip_upt_nth filter_map comp_def)
qed

lemma total_distance_sum_list:
  "total_distance x ps = sum_list (map (euclideanDistance x) ps)"
proof -
  have "foldl (\<lambda>d pixel. d + euclideanDistance x pixel) a ps = a + sum_list (map (euclideanDistance x) ps)" for a
    by (induction ps arbitrary: a) simp_all
  then show ?thesis by (simp add: total_distance_def)
qed

lemma filter_upt_set:
  "set (filter P [0..<n]) = {j. j < n \<and> P j}" "distinct (filter P [0..<n])"
  by auto

lemma cluster_total:
  assumes "length labs = length pixels"
  shows "total_distance x (pixels_with_label pixels labs (Some l)) =
           (\<Sum>j\<in>cluster_indices labs l. euclideanDistance x (pixels ! j))"
    and "length (pixels_with_label pixels labs (Some l)) = card (cluster_indices labs l)"
proof -
  define js where "js = filter (\<lambda>j. labs ! j = l) [0..<length pixels]"
  have s: "set js = cluster_indices labs l" and d: "distinct js"
    using assms by (auto simp: js_def cluster_indices_def)
  have "total_distance x (pixels_with_label pixels labs (Some l)) =
        sum_list (map (\<lambda>j. euclideanDistance x (pixels ! j)) js)"
    by (simp add: total_distance_sum_list pixels_with_label_indices[OF assms] js_def comp_def)
  also have "\<dots> = (\<Sum>j\<in>set js. euclideanDistance x (pixels ! j))"
    using d by (rule sum_list_distinct_conv_sum_set)
  finally show "total_distance x (pixels_with_label pixels labs (Some l)) =
           (\<Sum>j\<in>cluster_indices labs l. euclideanDistance x (pixels ! j))"
    by (simp add: s)
  have "length (pixels_with_label pixels labs (Some l)) = length js"
    by (simp add: pixels_with_label_indices[OF assms] js_def)
  also have "\<dots> = card (set js)" using d by (simp add: distinct_card)
  finally show "length (pixels_with_label pixels labs (Some l)) = card (cluster_indices labs l)"
    by (simp add: s)
qed

lemma euclideanDistance_self: "euclideanDistance p p = 0"
  by (cases p) simp

lemma silhouette_a_spec:
  assumes len: "length labs = length pixels" and i: "i < length pixels"
  shows "silhouette_a pixels labs i = spec_a pixels labs i"
proof -
  define own where "own = cluster_indices labs (labs ! i)"
  have fin: "finite own" by (simp add: own_def cluster_indices_def)
  have mem: "i \<in> own" using i len by (simp add: own_def cluster_indices_def)
  have la: "label_at labs i = Some (labs ! i)" using i len by (simp add: label_at_def)
  have tot: "total_distance (pixels ! i) (pixels_with_label pixels labs (Some (labs ! i))) =
      (\<Sum>j\<in>own - {i}. euclideanDistance (pixels ! i) (pixels ! j))"
    unfolding cluster_total(1)[OF len] own_def[symmetric]
    by (simp add: sum.remove[OF fin mem] euclideanDistance_self)
  have cnt: "length (pixels_with_label pixels labs (Some (labs ! i))) = card own"
    unfolding cluster_total(2)[OF len] own_def ..
  have pos: "0 < card own" using fin mem by (auto simp: card_gt_0_iff)
  have c1: "card (own - {i}) = card own - 1" using fin mem by simp
  show ?thesis
  proof (cases "card own = 1")
    case True
    then show ?thesis
      by (simp add: silhouette_a_def spec_a_def la cnt own_def[symmetric] Let_def)
  next
    case False
    with pos have "1 < card own" by simp
    then show ?thesis
      using False
      by (simp add: silhouette_a_def spec_a_def la cnt tot c1 own_def[symmetric] Let_def)
  qed
qed

lemma js_min_Fin [simp]:
  "js_min PInf (Fin x) = Fin x" "js_min (Fin x) (Fin y) = Fin (min x y)"
  by (auto simp: js_min_def)

lemma uniqueLabels_set: "set (uniqueLabels labs) = set labs"
proof -
  have "set (foldl (\<lambda>acc l. if l \<in> set acc then acc else acc @ [l]) acc labs) = set acc \<union> set labs"
    for acc
    by (induction labs arbitrary: acc) auto
  then show ?thesis by (simp add: uniqueLabels_def)
qed

text \<open>The running minimum over the labels other than \<open>c\<close>.\<close>

lemma Min_insert_min:
  fixes m x :: real
  assumes "finite S"
  shows "Min (insert (min m x) S) = Min (insert m (insert x S))"
proof (cases "S = {}")
  case True
  then show ?thesis by simp
next
  case False
  then show ?thesis using assms by (simp add: min.assoc)
qed

lemma fold_min_other_labels:
  fixes f :: "nat \<Rightarrow> real" and c :: nat
  defines "step \<equiv> (\<lambda>m l. if Some l \<noteq> Some c then js_min m (Fin (f l)) else m)"
  shows "foldl step (Fin m) ls = Fin (Min (insert m (f ` (set ls - {c}))))"
    and "foldl step PInf ls = (if set ls - {c} = {} then PInf else Fin (Min (f ` (set ls - {c}))))"
proof -
  have fin: "foldl step (Fin m) ls = Fin (Min (insert m (f ` (set ls - {c}))))" for m ls
  proof (induction ls arbitrary: m)
    case Nil
    show ?case by simp
  next
    case (Cons l ls)
    show ?case
    proof (cases "l = c")
      case True
      then have "set (l # ls) - {c} = set ls - {c}" by auto
      then show ?thesis using Cons.IH[of m] True by (simp add: step_def)
    next
      case False
      have s: "set (l # ls) - {c} = insert l (set ls - {c})" using False by auto
      have "foldl step (Fin m) (l # ls) = foldl step (Fin (min m (f l))) ls"
        using False by (simp add: step_def)
      also have "\<dots> = Fin (Min (insert (min m (f l)) (f ` (set ls - {c}))))" by (rule Cons.IH)
      also have "Min (insert (min m (f l)) (f ` (set ls - {c}))) =
                 Min (insert m (f ` (set (l # ls) - {c})))"
        unfolding s image_insert by (rule Min_insert_min) simp
      finally show ?thesis .
    qed
  qed
  show "foldl step (Fin m) ls = Fin (Min (insert m (f ` (set ls - {c}))))" by (rule fin)
  show "foldl step PInf ls = (if set ls - {c} = {} then PInf else Fin (Min (f ` (set ls - {c}))))"
  proof (induction ls)
    case Nil
    show ?case by simp
  next
    case (Cons l ls)
    show ?case
    proof (cases "l = c")
      case True
      then have "set (l # ls) - {c} = set ls - {c}" by auto
      then show ?thesis using Cons.IH True by (simp add: step_def)
    next
      case False
      have s: "set (l # ls) - {c} = insert l (set ls - {c})" using False by auto
      have "foldl step PInf (l # ls) = foldl step (Fin (f l)) ls"
        using False by (simp add: step_def)
      also have "\<dots> = Fin (Min (insert (f l) (f ` (set ls - {c}))))" by (rule fin)
      finally have "foldl step PInf (l # ls) = Fin (Min (f ` (set (l # ls) - {c})))"
        unfolding s image_insert .
      moreover have "set (l # ls) - {c} \<noteq> {}" unfolding s by simp
      ultimately show ?thesis by (simp only: if_False)
    qed
  qed
qed

lemma silhouette_b_spec:
  assumes len: "length labs = length pixels" and i: "i < length pixels"
  shows "silhouette_b pixels labs i = spec_b pixels labs i"
proof -
  have la: "label_at labs i = Some (labs ! i)" using i len by (simp add: label_at_def)
  have avg: "(if length (pixels_with_label pixels labs (Some l)) > 0
              then total_distance (pixels ! i) (pixels_with_label pixels labs (Some l))
                     / real (length (pixels_with_label pixels labs (Some l)))
              else 0) = spec_mean_distance pixels labs i l" for l
    by (simp add: cluster_total[OF len] spec_mean_distance_def)
  have "silhouette_b pixels labs i =
        foldl (\<lambda>m l. if Some l \<noteq> Some (labs ! i)
                       then js_min m (Fin (spec_mean_distance pixels labs i l)) else m)
          PInf (uniqueLabels labs)"
    unfolding silhouette_b_def la Let_def avg ..
  also have "\<dots> = spec_b pixels labs i"
    unfolding fold_min_other_labels(2) uniqueLabels_set spec_b_def Let_def ..
  finally show ?thesis .
qed

lemma silhouette_s_spec:
  assumes "length labs = length pixels" "i < length pixels"
  shows "silhouette_s pixels labs i = spec_s pixels labs i"
  by (simp add: silhouette_s_def spec_s_def silhouette_a_spec[OF assms] silhouette_b_spec[OF assms])

lemma calculateSilhouetteScore_spec:
  assumes "length labs = length (extract_pixels (data img))"
  shows "calculateSilhouetteScore img labs = spec_silhouette (extract_pixels (data img)) labs"
proof -
  define pixels where "pixels = extract_pixels (data img)"
  have len: "length labs = length pixels" using assms by (simp add: pixels_def)
  have "foldl (\<lambda>t i. js_add t (silhouette_s pixels labs i)) (Fin 0) [0..<length pixels] =
        foldl js_add (Fin 0) (map (silhouette_s pixels labs) [0..<length pixels])"
    by (simp add: foldl_map)
  also have "map (silhouette_s pixels labs) [0..<length pixels] =
             map (spec_s pixels labs) [0..<length pixels]"
    by (rule map_cong) (simp_all add: silhouette_s_spec[OF len])
  finally show ?thesis
    by (simp add: calculateSilhouetteScore_def spec_silhouette_def pixels_def[symmetric] Let_def)
qed

lemma spec_a_nonneg: "0 \<le> spec_a pixels labs i"
  by (simp add: spec_a_def Let_def sum_nonneg euclideanDistance_nonneg)

lemma spec_s_finite:
  assumes "set labs - {labs ! i} \<noteq> {}"
  shows "spec_s pixels labs i = Fin (spec_s_real pixels labs i)"
proof -
  define a where "a = spec_a pixels labs i"
  define b where "b = Min (spec_mean_distance pixels labs i ` (set labs - {labs ! i}))"
  have sb: "spec_b pixels labs i = Fin b" using assms by (simp add: spec_b_def b_def)
  have a0: "0 \<le> a" unfolding a_def by (rule spec_a_nonneg)
  show ?thesis
  proof (cases "a = 0")
    case True
    then show ?thesis by (simp add: spec_s_def spec_s_real_def a_def[symmetric])
  next
    case False
    with a0 have pos: "0 < a" by simp
    then have m: "0 < max a b" by (simp add: max_def)
    have mx: "js_max (Fin a) (Fin b) = Fin (max a b)" by (auto simp: js_max_def max_def)
    have sub: "js_sub (Fin b) (Fin a) = Fin (b - a)" using pos by (simp add: js_sub_def js_add_def)
    have "js_div (Fin (b - a)) (Fin (max a b)) = Fin ((b - a) / max a b)"
      using m by (auto simp: js_div_def js_signed_zero_def zero_less_mult_iff not_less divide_less_0_iff)
    then show ?thesis
      using False
      by (simp add: spec_s_def spec_s_real_def a_def[symmetric] b_def[symmetric] sb mx sub Let_def)
  qed
qed

lemma foldl_js_add_Fin:
  "foldl js_add (Fin x) (map (\<lambda>i. Fin (g i)) xs) = Fin (x + sum_list (map g xs))"
  by (induction xs arbitrary: x) (simp_all add: js_add_def)

lemma spec_silhouette_finite:
  assumes two: "2 \<le> card (set labs)" and n: "0 < length pixels"
  shows "spec_silhouette pixels labs =
           Fin ((\<Sum>i<length pixels. spec_s_real pixels labs i) / real (length pixels))"
proof -
  have other: "set labs - {l} \<noteq> {}" for l
  proof
    assume "set labs - {l} = {}"
    then have "set labs \<subseteq> {l}" by auto
    then have "card (set labs) \<le> card {l}" by (intro card_mono) simp_all
    with two show False by simp
  qed
  have m: "map (spec_s pixels labs) [0..<length pixels] =
        map (\<lambda>i. Fin (spec_s_real pixels labs i)) [0..<length pixels]"
    by (rule map_cong) (simp_all add: spec_s_finite[OF other])
  have "foldl js_add (Fin 0) (map (spec_s pixels labs) [0..<length pixels]) =
        Fin (0 + sum_list (map (spec_s_real pixels labs) [0..<length pixels]))"
    unfolding m by (rule foldl_js_add_Fin)
  then have "foldl js_add (Fin 0) (map (spec_s pixels labs) [0..<length pixels]) =
        Fin (sum_list (map (spec_s_real pixels labs) [0..<length pixels]))"
    by simp
  also have "sum_list (map (spec_s_real pixels labs) [0..<length pixels]) =
        (\<Sum>i<length pixels. spec_s_real pixels labs i)"
    by (simp add: interv_sum_list_conv_sum_set_nat atLeast0LessThan)
  finally have t: "foldl js_add (Fin 0) (map (spec_s pixels labs) [0..<length pixels]) =
        Fin (\<Sum>i<length pixels. spec_s_real pixels labs i)" .
  have "js_div (Fin x) (Fin (real (length pixels))) = Fin (x / real (length pixels))" for x
    using n by (auto simp: js_div_def js_signed_zero_def zero_less_mult_iff not_less divide_less_0_iff)
  then show ?thesis unfolding spec_silhouette_def t .
qed

text \<open>
  Claim C3: for a label array with one label per pixel, \<open>calculateSilhouetteScore\<close>
  returns the mean of the per-pixel scores \<open>s\<close>, where \<open>s = 0\<close> if \<open>a = 0\<close> and
  \<open>(b - a) / max(a, b)\<close> otherwise, \<open>a\<close> is the mean distance to the other pixels of
  the pixel's own cluster (0 for a cluster of size 1) and \<open>b\<close> the minimum over the other
  clusters of the mean distance to their pixels (\<open>+Infinity\<close> when there is no other
  cluster, which makes a score with \<open>a \<noteq> 0\<close> NaN). With at least two clusters and a
  non-empty image all of this is finite and the result is the real number
  \<open>(\<Sum>i<n. s i) / n\<close>.
\<close>

theorem silhouette_is_mean_of_scores:
  assumes "length labs = length (extract_pixels (data img))"
  shows "calculateSilhouetteScore img labs = spec_silhouette (extract_pixels (data img)) labs \<and>
         (2 \<le> card (set labs) \<and> 0 < length (extract_pixels (data img)) \<longrightarrow>
            calculateSilhouetteScore img labs =
              Fin ((\<Sum>i<length (extract_pixels (data img)).
                      spec_s_real (extract_pixels (data img)) labs i)
                   / real (length (extract_pixels (data img)))))"
  using calculateSilhouetteScore_spec[OF assms] spec_silhouette_finite by simp

lemma euclideanDistance_red: "euclideanDistance (x, g, b) (y, g, b) = \<bar>x - y\<bar>"
  by simp

lemma img4_score:
  "calculateSilhouetteScore img4 [0, 0, 1, 1] = Fin (246991 / 249991)"
  by (simp add: calculateSilhouetteScore_def img4_def silhouette_s_def silhouette_a_def
      silhouette_b_def pixels_with_label_def label_at_def total_distance_def uniqueLabels_def
      euclideanDistance_red js_div_def js_sub_def js_add_def js_max_def js_min_def
      js_signed_zero_def Let_def upt_conv_Cons
      del: euclideanDistance.simps)

text \<open>The witness of C3: on the four pixels of \<open>img4\<close> with the labels 0, 0, 1, 1 the
  score is \<open>246991 / 249991\<close>.\<close>

theorem silhouette_is_mean_of_scores_witness:
  "length [0, 0, 1, 1 :: nat] = length (extract_pixels (data img4)) \<and>
   2 \<le> card (set [0, 0, 1, 1 :: nat]) \<and> 0 < length (extract_pixels (data img4)) \<and>
   spec_silhouette (extract_pixels (data img4)) [0, 0, 1, 1] = Fin (246991 / 249991) \<and>
   Fin ((\<Sum>i<length (extract_pixels (data img4)).
                      spec_s_real (extract_pixels (data img4)) [0, 0, 1, 1] i)
                   / real (length (extract_pixels (data img4)))) = Fin (246991 / 249991)"
proof -
  have l: "length [0, 0, 1, 1 :: nat] = length (extract_pixels (data img4))"
    by (simp add: img4_def)
  have c: "2 \<le> card (set [0, 0, 1, 1 :: nat])" by simp
  have n: "0 < length (extract_pixels (data img4))" by (simp add: img4_def)
  note inst = silhouette_is_mean_of_scores[OF l]
  have a: "spec_silhouette (extract_pixels (data img4)) [0, 0, 1, 1] = Fin (246991 / 249991)"
    using inst[THEN conjunct1] img4_score by simp
  have b: "Fin ((\<Sum>i<length (extract_pixels (data img4)).
                      spec_s_real (extract_pixels (data img4)) [0, 0, 1, 1] i)
                   / real (length (extract_pixels (data img4)))) = Fin (246991 / 249991)"
    using inst[THEN conjunct2, rule_format, OF conjI[OF c n]] img4_score by simp
  show ?thesis by (intro conjI l c n a b)
qed

end
